theory Spec2Isabelle
  imports Main "HOL-Library.Word"
begin

unbundle bit_operations_syntax

section \<open>Go strings and library functions used by the notes tool\<close>

text \<open>
  A Go \<^verbatim>\<open>string\<close> is a sequence of bytes; it is modelled as a \<^typ>\<open>string\<close>
  (a list of 8-bit characters). \<^verbatim>\<open>strings.HasPrefix\<close>, \<^verbatim>\<open>strings.HasSuffix\<close> and
  \<^verbatim>\<open>strings.Index\<close> are written out as recursive functions; \<^verbatim>\<open>Index\<close> returns
  the position of the first occurrence, or \<open>-1\<close>.
\<close>

fun HasPrefix :: "string \<Rightarrow> string \<Rightarrow> bool" where
  "HasPrefix s [] = True"
| "HasPrefix [] (p # ps) = False"
| "HasPrefix (c # cs) (p # ps) = (c = p \<and> HasPrefix cs ps)"

definition HasSuffix :: "string \<Rightarrow> string \<Rightarrow> bool" where
  "HasSuffix s suffix = (length suffix \<le> length s \<and> drop (length s - length suffix) s = suffix)"

fun Index :: "string \<Rightarrow> string \<Rightarrow> int" where
  "Index [] substr = (if substr = [] then 0 else -1)"
| "Index (c # cs) substr =
     (if HasPrefix (c # cs) substr then 0
      else (let i = Index cs substr in if i = -1 then -1 else i + 1))"

text \<open>
  \<^verbatim>\<open>filepath.Base\<close> (Unix): the last element of the path; trailing slashes are
  removed first; the empty path gives \<^verbatim>\<open>.\<close>, a path of slashes only gives \<^verbatim>\<open>/\<close>.
\<close>

definition Base :: "string \<Rightarrow> string" where
  "Base path =
     (if path = [] then ''.''
      else (let p = rev (dropWhile (\<lambda>c. c = CHR ''/'') (rev path));
                q = rev (takeWhile (\<lambda>c. c \<noteq> CHR ''/'') (rev p))
            in if q = [] then ''/'' else q))"

subsection \<open>Time values\<close>

text \<open>
  A \<^verbatim>\<open>time.Time\<close> is modelled by the calendar fields that \<^verbatim>\<open>Format\<close> reads, in the
  time's own location, and by the offset of that location from UTC in seconds. The zero
  value of the Go type is midnight of January 1 of year 1, UTC.
\<close>

record Time =
  Year :: int
  Month :: nat
  Day :: nat
  Hour :: nat
  Minute :: nat
  Second :: nat
  Nanosecond :: nat
  Offset :: int

definition zeroTime :: Time where
  "zeroTime = \<lparr>Year = 1, Month = 1, Day = 1, Hour = 0, Minute = 0, Second = 0, Nanosecond = 0,
               Offset = 0\<rparr>"

definition IsZero :: "Time \<Rightarrow> bool" where
  "IsZero t = (t = zeroTime)"

definition digit :: "nat \<Rightarrow> char" where
  "digit n = char_of (48 + n)"

fun decimal :: "nat \<Rightarrow> string" where
  "decimal n = (if n < 10 then [digit n] else decimal (n div 10) @ [digit (n mod 10)])"

text \<open>\<^verbatim>\<open>appendInt(b, x, width)\<close> of package time: decimal, zero-padded, with a sign.\<close>

definition appendInt :: "int \<Rightarrow> nat \<Rightarrow> string" where
  "appendInt x width =
     (let ds = decimal (nat \<bar>x\<bar>)
      in (if x < 0 then ''-'' else '''') @ replicate (width - length ds) CHR ''0'' @ ds)"

text \<open>\<^verbatim>\<open>t.Format(noteTimeFormat)\<close> with \<^verbatim>\<open>noteTimeFormat = "2006-01-02 15:04"\<close>.\<close>

definition Format_noteTime :: "Time \<Rightarrow> string" where
  "Format_noteTime t =
     appendInt (Year t) 4 @ ''-'' @ appendInt (int (Month t)) 2 @ ''-'' @ appendInt (int (Day t)) 2
     @ '' '' @ appendInt (int (Hour t)) 2 @ '':'' @ appendInt (int (Minute t)) 2"

text \<open>
  \<^verbatim>\<open>time.Parse(noteTimeFormat, value)\<close>, as package time reads this layout: a year of
  four digits, a month and a day of two digits, an hour of one or two digits and a
  minute of two digits, separated as in the layout, with nothing after them; the month,
  the hour and the minute are checked while reading, the day against the month's length
  at the end. The result is in UTC.
\<close>

definition isDigit :: "char \<Rightarrow> bool" where
  "isDigit c \<longleftrightarrow> 48 \<le> (of_char c :: nat) \<and> (of_char c :: nat) \<le> 57"

definition digitVal :: "char \<Rightarrow> nat" where
  "digitVal c = of_char c - 48"

definition getnum :: "string \<Rightarrow> bool \<Rightarrow> (nat \<times> string) option" where
  "getnum s fixed =
     (case s of
        [] \<Rightarrow> None
      | c # r \<Rightarrow>
          if \<not> isDigit c then None
          else (case r of
                  [] \<Rightarrow> if fixed then None else Some (digitVal c, r)
                | c2 # r2 \<Rightarrow>
                    if \<not> isDigit c2 then (if fixed then None else Some (digitVal c, r))
                    else Some (digitVal c * 10 + digitVal c2, r2)))"

definition longYear :: "string \<Rightarrow> (nat \<times> string) option" where
  "longYear value =
     (case value of
        a # b # c # d # r \<Rightarrow>
          if isDigit a \<and> isDigit b \<and> isDigit c \<and> isDigit d
          then Some (1000 * digitVal a + 100 * digitVal b + 10 * digitVal c + digitVal d, r)
          else None
      | _ \<Rightarrow> None)"

definition skip :: "char \<Rightarrow> string \<Rightarrow> string option" where
  "skip c value = (case value of [] \<Rightarrow> None | x # r \<Rightarrow> if x = c then Some r else None)"

text \<open>
  A space of the layout is matched by any run of spaces of the value, and also by the
  end of the value.
\<close>

definition skip_space :: "string \<Rightarrow> string option" where
  "skip_space value =
     (case value of
        [] \<Rightarrow> Some []
      | x # r \<Rightarrow> if x \<noteq> CHR '' '' then None else Some (dropWhile (\<lambda>c. c = CHR '' '') value))"

definition isLeap :: "nat \<Rightarrow> bool" where
  "isLeap year \<longleftrightarrow> year mod 4 = 0 \<and> (year mod 100 \<noteq> 0 \<or> year mod 400 = 0)"

definition daysIn :: "nat \<Rightarrow> nat \<Rightarrow> nat" where
  "daysIn month year =
     (if month = 2 then (if isLeap year then 29 else 28)
      else if month = 4 \<or> month = 6 \<or> month = 9 \<or> month = 11 then 30 else 31)"

definition Parse_noteTime :: "string \<Rightarrow> Time option" where
  "Parse_noteTime value =
     Option.bind (longYear value) (\<lambda>(year, v1).
     Option.bind (skip CHR ''-'' v1) (\<lambda>v2.
     Option.bind (getnum v2 True) (\<lambda>(month, v3).
     if month = 0 \<or> 12 < month then None else
     Option.bind (skip CHR ''-'' v3) (\<lambda>v4.
     Option.bind (getnum v4 True) (\<lambda>(day, v5).
     Option.bind (skip_space v5) (\<lambda>v6.
     Option.bind (getnum v6 False) (\<lambda>(hour, v7).
     if 24 \<le> hour then None else
     Option.bind (skip CHR '':'' v7) (\<lambda>v8.
     Option.bind (getnum v8 True) (\<lambda>(minute, v9).
     if 60 \<le> minute then None
     else if v9 \<noteq> [] then None
     else if day < 1 \<or> daysIn month year < day then None
     else Some \<lparr>Year = int year, Month = month, Day = day, Hour = hour, Minute = minute,
                 Second = 0, Nanosecond = 0, Offset = 0\<rparr>)))))))))"

text \<open>
  \<^verbatim>\<open>NoteTime.UnmarshalYAML\<close> on the text of the YAML node: the empty text is the zero
  time; otherwise the note format is tried first, then RFC 3339 and three further
  layouts, which package time reads and which are the parameter \<open>Parse_other\<close>.
\<close>

definition NoteTime_UnmarshalYAML :: "(string \<Rightarrow> Time option) \<Rightarrow> string \<Rightarrow> string + Time" where
  "NoteTime_UnmarshalYAML Parse_other value =
     (if value = [] then Inr zeroTime
      else (case Parse_noteTime value of
              Some parsed \<Rightarrow> Inr parsed
            | None \<Rightarrow>
                (case Parse_other value of
                   Some parsed \<Rightarrow> Inr parsed
                 | None \<Rightarrow> Inl (''cannot parse time: '' @ value))))"

subsection \<open>SHA-256 and hexadecimal encoding\<close>

text \<open>
  \<^verbatim>\<open>crypto/sha256.Sum256\<close> implements FIPS 180-4; it is written out here on 32-bit
  words, from the bytes of the message to the 32 bytes of the digest.
  \<^verbatim>\<open>hex.EncodeToString\<close> writes two lower-case digits per byte, and \<open>bytes\<close> is the
  conversion \<^verbatim>\<open>[]byte(s)\<close>.
\<close>

type_synonym byte = "8 word"
type_synonym u32 = "32 word"

definition rotr :: "nat \<Rightarrow> u32 \<Rightarrow> u32" where
  "rotr n x = (drop_bit n x) OR (push_bit (32 - n) x)"

definition Ch :: "u32 \<Rightarrow> u32 \<Rightarrow> u32 \<Rightarrow> u32" where
  "Ch x y z = (x AND y) XOR (NOT x AND z)"

definition Maj :: "u32 \<Rightarrow> u32 \<Rightarrow> u32 \<Rightarrow> u32" where
  "Maj x y z = (x AND y) XOR (x AND z) XOR (y AND z)"

definition Sigma0 :: "u32 \<Rightarrow> u32" where
  "Sigma0 x = rotr 2 x XOR rotr 13 x XOR rotr 22 x"

definition Sigma1 :: "u32 \<Rightarrow> u32" where
  "Sigma1 x = rotr 6 x XOR rotr 11 x XOR rotr 25 x"

definition sigma0 :: "u32 \<Rightarrow> u32" where
  "sigma0 x = rotr 7 x XOR rotr 18 x XOR drop_bit 3 x"

definition sigma1 :: "u32 \<Rightarrow> u32" where
  "sigma1 x = rotr 17 x XOR rotr 19 x XOR drop_bit 10 x"

definition K256 :: "u32 list" where
  "K256 = [
   0x428A2F98, 0x71374491, 0xB5C0FBCF, 0xE9B5DBA5, 0x3956C25B, 0x59F111F1, 0x923F82A4, 0xAB1C5ED5,
   0xD807AA98, 0x12835B01, 0x243185BE, 0x550C7DC3, 0x72BE5D74, 0x80DEB1FE, 0x9BDC06A7, 0xC19BF174,
   0xE49B69C1, 0xEFBE4786, 0x0FC19DC6, 0x240CA1CC, 0x2DE92C6F, 0x4A7484AA, 0x5CB0A9DC, 0x76F988DA,
   0x983E5152, 0xA831C66D, 0xB00327C8, 0xBF597FC7, 0xC6E00BF3, 0xD5A79147, 0x06CA6351, 0x14292967,
   0x27B70A85, 0x2E1B2138, 0x4D2C6DFC, 0x53380D13, 0x650A7354, 0x766A0ABB, 0x81C2C92E, 0x92722C85,
   0xA2BFE8A1, 0xA81A664B, 0xC24B8B70, 0xC76C51A3, 0xD192E819, 0xD6990624, 0xF40E3585, 0x106AA070,
   0x19A4C116, 0x1E376C08, 0x2748774C, 0x34B0BCB5, 0x391C0CB3, 0x4ED8AA4A, 0x5B9CCA4F, 0x682E6FF3,
   0x748F82EE, 0x78A5636F, 0x84C87814, 0x8CC70208, 0x90BEFFFA, 0xA4506CEB, 0xBEF9A3F7, 0xC67178F2]"

definition H256 :: "u32 list" where
  "H256 = [0x6A09E667, 0xBB67AE85, 0x3C6EF372, 0xA54FF53A,
           0x510E527F, 0x9B05688C, 0x1F83D9AB, 0x5BE0CD19]"

text \<open>
  Padding: the byte 0x80, zero bytes up to 56 modulo 64, then the length in bits as a
  64-bit big-endian number.
\<close>

definition be64 :: "64 word \<Rightarrow> byte list" where
  "be64 w = map (\<lambda>i. ucast (drop_bit (8 * (7 - i)) w)) [0..<8]"

definition pad :: "byte list \<Rightarrow> byte list" where
  "pad m = m @ [0x80] @ replicate ((119 - length m mod 64) mod 64) 0
           @ be64 (push_bit 3 (of_nat (length m)))"

fun be32 :: "byte list \<Rightarrow> u32 list" where
  "be32 (a # b # c # d # rest) =
     (push_bit 24 (ucast a) OR push_bit 16 (ucast b) OR push_bit 8 (ucast c) OR ucast d)
     # be32 rest"
| "be32 _ = []"

text \<open>
  The message schedule, kept newest first: \<open>ws ! 1\<close> is the word two steps back,
  \<open>ws ! 6\<close> seven, \<open>ws ! 14\<close> fifteen and \<open>ws ! 15\<close> sixteen steps back.
\<close>

fun schedule :: "nat \<Rightarrow> u32 list \<Rightarrow> u32 list" where
  "schedule 0 ws = ws"
| "schedule (Suc n) ws =
     schedule n ((sigma1 (ws ! 1) + ws ! 6 + sigma0 (ws ! 14) + ws ! 15) # ws)"

type_synonym st8 = "u32 \<times> u32 \<times> u32 \<times> u32 \<times> u32 \<times> u32 \<times> u32 \<times> u32"

fun round256 :: "st8 \<Rightarrow> u32 \<times> u32 \<Rightarrow> st8" where
  "round256 (a, b, c, d, e, f, g, h) (k, w) =
     (let t1 = h + Sigma1 e + Ch e f g + k + w;
          t2 = Sigma0 a + Maj a b c
      in (t1 + t2, a, b, c, d + t1, e, f, g))"

fun block :: "u32 list \<Rightarrow> u32 list \<Rightarrow> u32 list" where
  "block [h0, h1, h2, h3, h4, h5, h6, h7] ws =
     (case foldl round256 (h0, h1, h2, h3, h4, h5, h6, h7)
             (zip K256 (rev (schedule 48 (rev ws)))) of
        (a, b, c, d, e, f, g, h) \<Rightarrow>
          [h0 + a, h1 + b, h2 + c, h3 + d, h4 + e, h5 + f, h6 + g, h7 + h])"
| "block hs ws = hs"

fun blocks :: "u32 list \<Rightarrow> u32 list \<Rightarrow> u32 list" where
  "blocks hs ws = (if length ws < 16 then hs else blocks (block hs (take 16 ws)) (drop 16 ws))"

definition bytes32 :: "u32 \<Rightarrow> byte list" where
  "bytes32 w = [ucast (drop_bit 24 w), ucast (drop_bit 16 w), ucast (drop_bit 8 w), ucast w]"

definition Sum256 :: "byte list \<Rightarrow> byte list" where
  "Sum256 m = concat (map bytes32 (blocks H256 (be32 (pad m))))"

definition hextable :: string where
  "hextable = ''0123456789abcdef''"

definition EncodeToString :: "byte list \<Rightarrow> string" where
  "EncodeToString src =
     concat (map (\<lambda>v. [hextable ! unat (drop_bit 4 v), hextable ! unat (v AND 0x0f)]) src)"

definition bytes :: "string \<Rightarrow> byte list" where
  "bytes s = map of_char s"

section \<open>The note record\<close>

record Frontmatter =
  Created :: Time
  Tags :: "string list"
  Summary :: string
  Related :: "string list"

record Note =
  Filename :: string
  Frontmatter :: Frontmatter
  Content :: string

text \<open>
  \<^verbatim>\<open>ParseNoteContent\<close>. The YAML decoder \<^verbatim>\<open>yaml.Unmarshal\<close> is a library outside the
  repository; it is the parameter \<open>Unmarshal\<close>, which returns the decoded header or the
  decoder's error. The zero header is what \<^verbatim>\<open>&Note{Filename: ..., Content: ...}\<close> holds.
\<close>

datatype ParseError = InvalidFrontmatter string

definition Frontmatter_zero :: Frontmatter where
  "Frontmatter_zero = \<lparr>Created = zeroTime, Tags = [], Summary = [], Related = []\<rparr>"

definition ParseNoteContent ::
    "(string \<Rightarrow> string + Frontmatter) \<Rightarrow> string \<Rightarrow> string \<Rightarrow> ParseError + Note" where
  "ParseNoteContent Unmarshal filename content =
     (if \<not> HasPrefix content ''---\<newline>''
      then Inr \<lparr>Filename = filename, Frontmatter = Frontmatter_zero, Content = content\<rparr>
      else
        (let rest = drop 4 content;
             idx = Index rest ''\<newline>---\<newline>''
         in if idx = -1 \<and> \<not> HasSuffix rest ''\<newline>---''
            then Inr \<lparr>Filename = filename, Frontmatter = Frontmatter_zero, Content = content\<rparr>
            else
              (let idx = (if idx = -1 then int (length rest) - 4 else idx);
                   fmContent = take (nat idx) rest;
                   body = (if idx + 5 < int (length rest) then drop (nat (idx + 5)) rest else [])
               in case Unmarshal fmContent of
                    Inl err \<Rightarrow> Inl (InvalidFrontmatter err)
                  | Inr fm \<Rightarrow> Inr \<lparr>Filename = filename, Frontmatter = fm, Content = body\<rparr>)))"

text \<open>
  \<^verbatim>\<open>ToMarkdown\<close>. The loop over the tags writes \<^verbatim>\<open>", "\<close> before every item but the
  first. \<^verbatim>\<open>fmt.Sprintf("%q", s)\<close> is Go's quoting of the library, the parameter \<open>quote\<close>.
  \<open>header\<close> is what is written between the two marker lines.
\<close>

fun write_items :: "nat \<Rightarrow> string list \<Rightarrow> string" where
  "write_items i [] = []"
| "write_items i (item # items) =
     (if i > 0 then '', '' else []) @ item @ write_items (Suc i) items"

definition header :: "(string \<Rightarrow> string) \<Rightarrow> Frontmatter \<Rightarrow> string" where
  "header quote fm =
     ''created: '' @ Format_noteTime (Created fm) @ ''\<newline>''
     @ (if length (Frontmatter.Tags fm) = 0 then ''tags: []\<newline>''
        else ''tags: ['' @ write_items 0 (Frontmatter.Tags fm) @ '']\<newline>'')
     @ (if Frontmatter.Summary fm = [] then ''summary: '' @ [CHR 0x22, CHR 0x22] @ ''\<newline>''
        else ''summary: '' @ quote (Frontmatter.Summary fm) @ ''\<newline>'')
     @ (if length (Frontmatter.Related fm) = 0 then ''related: []\<newline>''
        else ''related: ['' @ write_items 0 (Frontmatter.Related fm) @ '']\<newline>'')"

definition ToMarkdown :: "(string \<Rightarrow> string) \<Rightarrow> Note \<Rightarrow> string" where
  "ToMarkdown quote n =
     ''---\<newline>'' @ header quote (Frontmatter n) @ ''---\<newline>'' @ Content n"

text \<open>
  \<^verbatim>\<open>strings.Split(s, "\n")\<close>: the lines of a text.
\<close>

fun lines_from :: "string \<Rightarrow> string \<Rightarrow> string list" where
  "lines_from cur [] = [rev cur]"
| "lines_from cur (c # cs) =
     (if c = CHR 0x0A then rev cur # lines_from [] cs else lines_from (c # cur) cs)"

definition split_lines :: "string \<Rightarrow> string list" where
  "split_lines s = lines_from [] s"

text \<open>
  Modelled from the spec: the header block of a note, in the words of the specification
  (a marker line at the very start, matched by the next line that holds only the
  marker; the header is what stands between them, the body what follows). The result
  is the header's lines and the body's lines, or nothing when the text has no header
  block.
\<close>

definition spec_header :: "string \<Rightarrow> (string list \<times> string list) option" where
  "spec_header content =
     (case split_lines content of
        [] \<Rightarrow> None
      | first # ls \<Rightarrow>
          if first = ''---'' \<and> ''---'' \<in> set ls
          then Some (takeWhile (\<lambda>l. l \<noteq> ''---'') ls, tl (dropWhile (\<lambda>l. l \<noteq> ''---'') ls))
          else None)"

text \<open>
  Modelled from the spec: the YAML decoder (\<^verbatim>\<open>gopkg.in/yaml.v3\<close>, not part of the
  repository) on the header notation the specification describes, four lines
  \<^verbatim>\<open>created\<close>, \<^verbatim>\<open>tags\<close>, \<^verbatim>\<open>summary\<close>, \<^verbatim>\<open>related\<close> in this order: the time as a plain
  scalar handed to \<^verbatim>\<open>NoteTime.UnmarshalYAML\<close>, tags and related notes as flow sequences
  of plain words separated by a comma and a space, the summary as a double-quoted
  scalar of printable ASCII in which only the quote and the backslash are escaped. A
  plain word is made of letters, digits, dots, underscores and hyphens and starts with a
  letter or a digit; the words \<^verbatim>\<open>null\<close>, \<^verbatim>\<open>Null\<close> and \<^verbatim>\<open>NULL\<close> are YAML's null and give the
  empty string. \<open>read_header\<close> is \<open>None\<close> on every text outside this notation: nothing is
  said about what the decoder does there.
\<close>

definition alnumChar :: "char \<Rightarrow> bool" where
  "alnumChar c \<longleftrightarrow>
     (let n = (of_char c :: nat)
      in (48 \<le> n \<and> n \<le> 57) \<or> (65 \<le> n \<and> n \<le> 90) \<or> (97 \<le> n \<and> n \<le> 122))"

definition plainChar :: "char \<Rightarrow> bool" where
  "plainChar c \<longleftrightarrow> alnumChar c \<or> c = CHR ''.'' \<or> c = CHR ''_'' \<or> c = CHR ''-''"

definition plain_word :: "string \<Rightarrow> bool" where
  "plain_word w \<longleftrightarrow> w \<noteq> [] \<and> alnumChar (hd w) \<and> list_all plainChar w"

definition plain_value :: "string \<Rightarrow> string" where
  "plain_value w = (if w = ''null'' \<or> w = ''Null'' \<or> w = ''NULL'' then [] else w)"

fun read_items :: "string \<Rightarrow> string \<Rightarrow> string list option" where
  "read_items cur [] = (if plain_word (rev cur) then Some [plain_value (rev cur)] else None)"
| "read_items cur (c # cs) =
     (if plainChar c then read_items (c # cur) cs
      else if c = CHR '','' \<and> plain_word (rev cur)
      then (case cs of
              [] \<Rightarrow> None
            | sp # cs' \<Rightarrow>
                if sp = CHR '' ''
                then map_option ((#) (plain_value (rev cur))) (read_items [] cs')
                else None)
      else None)"

definition read_flow :: "string \<Rightarrow> string list option" where
  "read_flow v =
     (case v of
        [] \<Rightarrow> None
      | c # r \<Rightarrow>
          if c \<noteq> CHR ''['' \<or> r = [] \<or> last r \<noteq> CHR '']'' then None
          else if butlast r = [] then Some []
          else read_items [] (butlast r))"

definition printable :: "char \<Rightarrow> bool" where
  "printable c \<longleftrightarrow> 32 \<le> (of_char c :: nat) \<and> (of_char c :: nat) \<le> 126"

fun unescape :: "string \<Rightarrow> string option" where
  "unescape [] = None"
| "unescape [c] = (if c = CHR 0x22 then Some [] else None)"
| "unescape (c # d # r) =
     (if c = CHR 0x5C
      then (if d = CHR 0x22 \<or> d = CHR 0x5C then map_option ((#) d) (unescape r) else None)
      else if c = CHR 0x22 \<or> \<not> printable c then None
      else map_option ((#) c) (unescape (d # r)))"

definition read_quoted :: "string \<Rightarrow> string option" where
  "read_quoted v = (case v of [] \<Rightarrow> None | c # r \<Rightarrow> if c = CHR 0x22 then unescape r else None)"

definition strip_key :: "string \<Rightarrow> string \<Rightarrow> string option" where
  "strip_key key line =
     (if HasPrefix line (key @ '': '') then Some (drop (length key + 2) line) else None)"

definition read_time :: "(string \<Rightarrow> Time option) \<Rightarrow> string \<Rightarrow> Time option" where
  "read_time Parse_other v =
     (case NoteTime_UnmarshalYAML Parse_other v of Inl err \<Rightarrow> None | Inr t \<Rightarrow> Some t)"

definition read_header :: "(string \<Rightarrow> Time option) \<Rightarrow> string \<Rightarrow> Frontmatter option" where
  "read_header Parse_other s =
     (case split_lines s of
        [l1, l2, l3, l4] \<Rightarrow>
          Option.bind (strip_key ''created'' l1) (\<lambda>v1.
          Option.bind (strip_key ''tags'' l2) (\<lambda>v2.
          Option.bind (strip_key ''summary'' l3) (\<lambda>v3.
          Option.bind (strip_key ''related'' l4) (\<lambda>v4.
          Option.bind (if v1 = [] then None else read_time Parse_other v1) (\<lambda>created.
          Option.bind (read_flow v2) (\<lambda>tags.
          Option.bind (read_quoted v3) (\<lambda>summary.
          Option.bind (read_flow v4) (\<lambda>related.
          Some \<lparr>Created = created, Tags = tags, Summary = summary, Related = related\<rparr>))))))))
      | _ \<Rightarrow> None)"

text \<open>
  A decoder reads the notation when it returns what \<open>read_header\<close> reads, wherever that
  is defined.
\<close>

definition reads_notation ::
    "(string \<Rightarrow> string + Frontmatter) \<Rightarrow> (string \<Rightarrow> Time option) \<Rightarrow> bool" where
  "reads_notation Unmarshal Parse_other \<longleftrightarrow>
     (\<forall>s fm. read_header Parse_other s = Some fm \<longrightarrow> Unmarshal s = Inr fm)"

text \<open>
  A decoder that reads the notation and rejects every other text, and a reader of the
  further time layouts that accepts none: they show that a decoder can read the
  notation.
\<close>

definition notation_decoder :: "(string \<Rightarrow> Time option) \<Rightarrow> string \<Rightarrow> string + Frontmatter" where
  "notation_decoder Parse_other s =
     (case read_header Parse_other s of Some fm \<Rightarrow> Inr fm | None \<Rightarrow> Inl ''unsupported'')"

definition no_other_layout :: "string \<Rightarrow> Time option" where
  "no_other_layout value = None"

text \<open>
  Modelled from the spec: Go's quoting \<^verbatim>\<open>%q\<close> on a string of printable ASCII, which
  puts the string between double quotes and a backslash before every quote and
  backslash. \<open>quotes_printable\<close> says that a quoting function does so on such strings.
\<close>

definition Quote_printable :: "string \<Rightarrow> string" where
  "Quote_printable s =
     CHR 0x22 # concat (map (\<lambda>c. if c = CHR 0x22 \<or> c = CHR 0x5C then [CHR 0x5C, c] else [c]) s)
     @ [CHR 0x22]"

definition quotes_printable :: "(string \<Rightarrow> string) \<Rightarrow> bool" where
  "quotes_printable quote \<longleftrightarrow> (\<forall>s. list_all printable s \<longrightarrow> quote s = Quote_printable s)"

text \<open>
  The headers that the notation can hold as they are: a time on a full minute of a year
  of four digits, in UTC, with a day that the month has; tags and related notes that
  are plain words other than YAML's null; a summary of printable ASCII.
\<close>

definition safe_time :: "Time \<Rightarrow> bool" where
  "safe_time t \<longleftrightarrow>
     0 \<le> Year t \<and> Year t \<le> 9999 \<and> 1 \<le> Month t \<and> Month t \<le> 12
     \<and> 1 \<le> Day t \<and> Day t \<le> daysIn (Month t) (nat (Year t))
     \<and> Hour t < 24 \<and> Minute t < 60 \<and> Second t = 0 \<and> Nanosecond t = 0 \<and> Offset t = 0"

definition safe_item :: "string \<Rightarrow> bool" where
  "safe_item w \<longleftrightarrow> plain_word w \<and> plain_value w = w"

definition safe_header :: "Frontmatter \<Rightarrow> bool" where
  "safe_header fm \<longleftrightarrow>
     safe_time (Created fm) \<and> list_all safe_item (Frontmatter.Tags fm)
     \<and> list_all printable (Frontmatter.Summary fm) \<and> list_all safe_item (Frontmatter.Related fm)"

text \<open>\<^verbatim>\<open>Note.ContentHash\<close>: the first 12 hexadecimal digits of the SHA-256 of the body.\<close>

definition Note_ContentHash :: "Note \<Rightarrow> string" where
  "Note_ContentHash n = take 12 (EncodeToString (Sum256 (bytes (Content n))))"

section \<open>The metadata index\<close>

text \<open>
  \<^verbatim>\<open>MetaFile.Files\<close> is a Go map from file names to \<^verbatim>\<open>*FileMeta\<close>. Every read in the
  code is \<^verbatim>\<open>m.Files[k]\<close> compared with \<^verbatim>\<open>nil\<close>, so a key is modelled as bound
  exactly when that read is not \<^verbatim>\<open>nil\<close>. A zero \<^verbatim>\<open>EnrichedAt\<close> means the note was
  never enriched.
\<close>

record FileMeta =
  ContentHash :: string
  EnrichedAt :: Time
  Tags :: "string list"
  Summary :: string
  Related :: "string list"

record MetaFile =
  Files :: "string \<rightharpoonup> FileMeta"

definition FileMeta_zero :: FileMeta where
  "FileMeta_zero = \<lparr>ContentHash = [], EnrichedAt = zeroTime, Tags = [], Summary = [], Related = []\<rparr>"

definition GetFileMeta :: "MetaFile \<Rightarrow> string \<Rightarrow> FileMeta option" where
  "GetFileMeta m filename = Files m filename"

definition SetFileMeta :: "MetaFile \<Rightarrow> string \<Rightarrow> FileMeta \<Rightarrow> MetaFile" where
  "SetFileMeta m filename meta = m\<lparr>Files := (Files m)(filename \<mapsto> meta)\<rparr>"

definition NeedsEnrichment :: "MetaFile \<Rightarrow> string \<Rightarrow> string \<Rightarrow> bool" where
  "NeedsEnrichment m filename currentHash =
     (case Files m filename of
        None \<Rightarrow> True
      | Some meta \<Rightarrow> ContentHash meta \<noteq> currentHash)"

definition UpdateFromNote :: "MetaFile \<Rightarrow> Note \<Rightarrow> MetaFile" where
  "UpdateFromNote m note =
     (let filename = Base (Filename note);
          meta = (case Files m filename of None \<Rightarrow> FileMeta_zero | Some meta \<Rightarrow> meta)
      in m\<lparr>Files := (Files m)(filename \<mapsto>
            meta\<lparr>ContentHash := Note_ContentHash note,
                 FileMeta.Tags := Frontmatter.Tags (Frontmatter note),
                 FileMeta.Summary := Frontmatter.Summary (Frontmatter note),
                 FileMeta.Related := Frontmatter.Related (Frontmatter note)\<rparr>)\<rparr>)"

text \<open>
  \<^verbatim>\<open>UpdateFromNoteWithEnrichment\<close> reads \<^verbatim>\<open>time.Now()\<close>, here the argument \<open>now\<close>.
  The result \<open>None\<close> stands for the nil dereference of \<^verbatim>\<open>m.Files[filename].EnrichedAt\<close>.
\<close>

definition UpdateFromNoteWithEnrichment :: "MetaFile \<Rightarrow> Note \<Rightarrow> Time \<Rightarrow> MetaFile option" where
  "UpdateFromNoteWithEnrichment m note now =
     (let m' = UpdateFromNote m note;
          filename = Base (Filename note)
      in case Files m' filename of
           None \<Rightarrow> None
         | Some meta \<Rightarrow> Some (m'\<lparr>Files := (Files m')(filename \<mapsto> meta\<lparr>EnrichedAt := now\<rparr>)\<rparr>))"

fun Contains :: "string list \<Rightarrow> string \<Rightarrow> bool" where
  "Contains [] item = False"
| "Contains (s # ss) item = (if s = item then True else Contains ss item)"

fun RemoveString :: "string list \<Rightarrow> string \<Rightarrow> string list" where
  "RemoveString [] item = []"
| "RemoveString (s # ss) item =
     (if s \<noteq> item then s # RemoveString ss item else RemoveString ss item)"

definition AddRelation :: "MetaFile \<Rightarrow> string \<Rightarrow> string \<Rightarrow> MetaFile" where
  "AddRelation m from to =
     (let m1 = (case Files m from of
                  None \<Rightarrow> m
                | Some meta \<Rightarrow>
                    if \<not> Contains (FileMeta.Related meta) to
                    then m\<lparr>Files := (Files m)(from \<mapsto>
                           meta\<lparr>FileMeta.Related := FileMeta.Related meta @ [to]\<rparr>)\<rparr>
                    else m)
      in (case Files m1 to of
            None \<Rightarrow> m1
          | Some meta \<Rightarrow>
              if \<not> Contains (FileMeta.Related meta) from
              then m1\<lparr>Files := (Files m1)(to \<mapsto>
                     meta\<lparr>FileMeta.Related := FileMeta.Related meta @ [from]\<rparr>)\<rparr>
              else m1))"

definition RemoveRelation :: "MetaFile \<Rightarrow> string \<Rightarrow> string \<Rightarrow> MetaFile" where
  "RemoveRelation m from to =
     (let m1 = (case Files m from of
                  None \<Rightarrow> m
                | Some meta \<Rightarrow>
                    m\<lparr>Files := (Files m)(from \<mapsto>
                      meta\<lparr>FileMeta.Related := RemoveString (FileMeta.Related meta) to\<rparr>)\<rparr>)
      in (case Files m1 to of
            None \<Rightarrow> m1
          | Some meta \<Rightarrow>
              m1\<lparr>Files := (Files m1)(to \<mapsto>
                meta\<lparr>FileMeta.Related := RemoveString (FileMeta.Related meta) from\<rparr>)\<rparr>))"

text \<open>
  The removal loop of \<^verbatim>\<open>CmdSync\<close>: \<^verbatim>\<open>for filename := range meta.Files\<close> visits the
  keys in an order \<open>keys\<close> that Go does not fix; \<open>isNotExist filename\<close> is the outcome of
  \<^verbatim>\<open>os.IsNotExist\<close> on the \<^verbatim>\<open>os.Stat\<close> of the note's path. With \<^verbatim>\<open>--dry-run\<close> the
  entry is only reported.
\<close>

fun CmdSync_remove :: "(string \<Rightarrow> bool) \<Rightarrow> bool \<Rightarrow> string list \<Rightarrow> MetaFile \<Rightarrow> MetaFile" where
  "CmdSync_remove isNotExist dryRun [] m = m"
| "CmdSync_remove isNotExist dryRun (filename # keys) m =
     CmdSync_remove isNotExist dryRun keys
       (if isNotExist filename
        then (if dryRun then m else m\<lparr>Files := (Files m)(filename := None)\<rparr>)
        else m)"

section \<open>The relationship graph\<close>

text \<open>
  \<^verbatim>\<open>getSummary\<close> takes the summary of the index entry when it is not empty; otherwise it
  reads the note's file (\<^verbatim>\<open>ParseNote\<close> and \<^verbatim>\<open>GetSummaryOrFirstLine\<close>, the empty string
  when the file cannot be parsed), which is the parameter \<open>fromFile\<close>.
\<close>

definition getSummary :: "(string \<Rightarrow> string) \<Rightarrow> MetaFile \<Rightarrow> string \<Rightarrow> string" where
  "getSummary fromFile meta filename =
     (case GetFileMeta meta filename of
        None \<Rightarrow> fromFile filename
      | Some fileMeta \<Rightarrow>
          if FileMeta.Summary fileMeta \<noteq> [] then FileMeta.Summary fileMeta
          else fromFile filename)"

text \<open>
  The JSON branch of \<^verbatim>\<open>showNeighborhood\<close>: the closure \<^verbatim>\<open>buildGraph\<close> shares the map
  \<^verbatim>\<open>visited\<close> between all its calls, so the model takes the set of visited names and
  returns it updated; \<open>buildGraph_range\<close> is the loop over \<^verbatim>\<open>fileMeta.Related\<close>.
\<close>

text \<open>
  The depth is a Go \<^verbatim>\<open>int\<close>: a 64-bit two's complement number. \<^verbatim>\<open>d - 1\<close> wraps
  around, and the comparisons with 0 read the number as signed (\<open>sint\<close>).
\<close>

type_synonym go_int = "64 word"

lemma sint_pred: "0 < sint (d::go_int) \<Longrightarrow> sint (d - 1) = sint d - 1"
proof -
  assume p: "0 < sint d"
  have "sint d < 2 ^ 63" using sint_lt [of d] by simp
  with p have "signed_take_bit 63 (sint d - 1) = sint d - 1"
    by (intro signed_take_bit_int_eq_self) simp_all
  then show ?thesis by (simp add: sint_word_ariths)
qed

datatype graphNode = GraphNode string string "graphNode list"

function buildGraph ::
    "(string \<Rightarrow> string) \<Rightarrow> MetaFile \<Rightarrow> string \<Rightarrow> go_int \<Rightarrow> string set
       \<Rightarrow> graphNode \<times> string set"
  and buildGraph_range ::
    "(string \<Rightarrow> string) \<Rightarrow> MetaFile \<Rightarrow> string list \<Rightarrow> go_int \<Rightarrow> string set
       \<Rightarrow> graphNode list \<times> string set"
  where
  "buildGraph fromFile meta f d visited =
     (if sint d \<le> 0 \<or> f \<in> visited
      then (GraphNode f (getSummary fromFile meta f) [], visited)
      else (case GetFileMeta meta f of
              None \<Rightarrow> (GraphNode f (getSummary fromFile meta f) [], insert f visited)
            | Some fileMeta \<Rightarrow>
                (case buildGraph_range fromFile meta (FileMeta.Related fileMeta) (d - 1)
                        (insert f visited) of
                   (related, visited') \<Rightarrow>
                     (GraphNode f (getSummary fromFile meta f) related, visited'))))"
| "buildGraph_range fromFile meta [] d visited = ([], visited)"
| "buildGraph_range fromFile meta (rel # rels) d visited =
     (case buildGraph fromFile meta rel d visited of
        (node, visited1) \<Rightarrow>
          (case buildGraph_range fromFile meta rels d visited1 of
             (nodes, visited2) \<Rightarrow> (node # nodes, visited2)))"
  by pat_completeness auto
termination
  by (relation "inv_image (less_than <*lex*> less_than)
        (\<lambda>x. case x of
           Inl (fromFile, meta, f, d, visited) \<Rightarrow> (nat (sint d), 0)
         | Inr (fromFile, meta, rels, d, visited) \<Rightarrow> (nat (sint d), Suc (length rels)))")
     (auto simp: sint_pred)

text \<open>
  The text branch. \<^verbatim>\<open>printTree\<close> prints one line per element of \<^verbatim>\<open>related\<close> and, under
  it, what the recursive call prints. A printed line is kept with the name it shows and
  with the lines printed under it; what reaches the terminal is \<open>printed_lines\<close>, in
  order. \<open>isLast\<close> (\<^verbatim>\<open>i == len(related)-1\<close>) holds when no element is left after \<open>rel\<close>.
  The connectors are the UTF-8 bytes of the box-drawing strings of the source.
\<close>

datatype printed = Printed string string "printed list"

definition connector_mid :: string where
  "connector_mid = [CHR 0xE2, CHR 0x94, CHR 0x9C, CHR 0xE2, CHR 0x94, CHR 0x80,
                    CHR 0xE2, CHR 0x94, CHR 0x80, CHR 0x20]"

definition connector_last :: string where
  "connector_last = [CHR 0xE2, CHR 0x94, CHR 0x94, CHR 0xE2, CHR 0x94, CHR 0x80,
                     CHR 0xE2, CHR 0x94, CHR 0x80, CHR 0x20]"

definition prefix_mid :: string where
  "prefix_mid = [CHR 0xE2, CHR 0x94, CHR 0x82, CHR 0x20, CHR 0x20, CHR 0x20]"

definition prefix_last :: string where
  "prefix_last = [CHR 0x20, CHR 0x20, CHR 0x20, CHR 0x20]"

function printTree ::
    "(string \<Rightarrow> string) \<Rightarrow> (string \<Rightarrow> string) \<Rightarrow> MetaFile \<Rightarrow> string list \<Rightarrow> go_int \<Rightarrow> string
       \<Rightarrow> string set \<Rightarrow> printed list \<times> string set"
  where
  "printTree fromFile quote meta [] depth prefix visited = ([], visited)"
| "printTree fromFile quote meta (rel # related) depth prefix visited =
     (let isLast = (related = []);
          connector = (if isLast then connector_last else connector_mid);
          childPrefix = prefix @ (if isLast then prefix_last else prefix_mid);
          summary = getSummary fromFile meta rel;
          line = prefix @ connector @ rel @ '' '' @ quote summary @ ''\<newline>''
      in case (if 0 < sint depth \<and> rel \<notin> visited
               then (case GetFileMeta meta rel of
                       None \<Rightarrow> ([], insert rel visited)
                     | Some fileMeta \<Rightarrow>
                         if length (FileMeta.Related fileMeta) > 0
                         then (let unvisited =
                                     filter (\<lambda>r. r \<notin> insert rel visited) (FileMeta.Related fileMeta)
                               in if length unvisited > 0
                                  then printTree fromFile quote meta unvisited (depth - 1)
                                         childPrefix (insert rel visited)
                                  else ([], insert rel visited))
                         else ([], insert rel visited))
               else ([], visited)) of
           (below, visited1) \<Rightarrow>
             (case printTree fromFile quote meta related depth prefix visited1 of
                (others, visited2) \<Rightarrow> (Printed rel line below # others, visited2)))"
  by pat_completeness auto
termination
  by (relation "inv_image (less_than <*lex*> less_than)
        (\<lambda>(fromFile, quote, meta, related, depth, prefix, visited).
           (nat (sint depth), length related))")
     (auto simp: sint_pred)

text \<open>
  \<^verbatim>\<open>showNeighborhood\<close>: \<open>isNotExist\<close> is the outcome of \<^verbatim>\<open>os.IsNotExist\<close> on the
  \<^verbatim>\<open>os.Stat\<close> of the note's path. The JSON branch marshals the tree of \<^verbatim>\<open>buildGraph\<close>;
  the text branch prints the root line and then the tree of the root's related notes,
  with \<^verbatim>\<open>depth-1\<close>, which wraps around to the largest \<^verbatim>\<open>int\<close> at the smallest one.
\<close>

datatype neighborhood = JSON graphNode | Text printed

definition showNeighborhood ::
    "(string \<Rightarrow> bool) \<Rightarrow> (string \<Rightarrow> string) \<Rightarrow> (string \<Rightarrow> string) \<Rightarrow> MetaFile \<Rightarrow> string \<Rightarrow> go_int
       \<Rightarrow> bool \<Rightarrow> string + neighborhood" where
  "showNeighborhood isNotExist fromFile quote meta filename depth asJSON =
     (if isNotExist filename then Inl (''note not found: '' @ filename)
      else
        (let rootSummary = getSummary fromFile meta filename
         in if asJSON
            then Inr (JSON (fst (buildGraph fromFile meta filename depth {})))
            else
              (let rootLine = filename @ '' '' @ quote rootSummary @ ''\<newline>''
               in case GetFileMeta meta filename of
                    None \<Rightarrow> Inr (Text (Printed filename rootLine []))
                  | Some fileMeta \<Rightarrow>
                      Inr (Text (Printed filename rootLine
                        (fst (printTree fromFile quote meta (FileMeta.Related fileMeta) (depth - 1)
                               [] {filename})))))))"

text \<open>What the claims say about a tree: its nodes, its height, and the names expanded.\<close>

fun graph_nodes :: "graphNode \<Rightarrow> string list" where
  "graph_nodes (GraphNode f s related) = f # concat (map graph_nodes related)"

fun graph_expanded :: "graphNode \<Rightarrow> string list" where
  "graph_expanded (GraphNode f s related) =
     (if related = [] then [] else [f]) @ concat (map graph_expanded related)"

fun graph_height :: "graphNode \<Rightarrow> nat" where
  "graph_height (GraphNode f s related) =
     (if related = [] then 0 else Suc (fold max (map graph_height related) 0))"

fun printed_lines :: "printed \<Rightarrow> string list" where
  "printed_lines (Printed f line below) = line # concat (map printed_lines below)"

fun printed_nodes :: "printed \<Rightarrow> string list" where
  "printed_nodes (Printed f line below) = f # concat (map printed_nodes below)"

fun printed_expanded :: "printed \<Rightarrow> string list" where
  "printed_expanded (Printed f line below) =
     (if below = [] then [] else [f]) @ concat (map printed_expanded below)"

fun printed_height :: "printed \<Rightarrow> nat" where
  "printed_height (Printed f line below) =
     (if below = [] then 0 else Suc (fold max (map printed_height below) 0))"

section \<open>Example notes and indexes\<close>

text \<open>
  The fixtures of the repository's tests and of the specification's scenarios:
  an entry that only lists related notes, the index with the two unrelated notes
  \<^verbatim>\<open>a.md\<close> and \<^verbatim>\<open>b.md\<close>, an index whose note lists itself twice, the index of the
  scenario \<open>A: [B]\<close>, \<open>B: [A, C]\<close>, \<open>C: [B]\<close>, the triangle in which each of three notes
  is related to the other two, a note with given tags and the body \<^verbatim>\<open>body\<close>, the
  notes of \<^verbatim>\<open>TestContentHashIgnoresFrontmatter\<close>, and the note of
  \<^verbatim>\<open>TestUpdateFromNote\<close>.
\<close>

definition fixture :: "string list \<Rightarrow> FileMeta" where
  "fixture r = FileMeta_zero\<lparr>FileMeta.Related := r\<rparr>"

definition index_ab :: MetaFile where
  "index_ab = \<lparr>Files = [''a.md'' \<mapsto> fixture [], ''b.md'' \<mapsto> fixture []]\<rparr>"

definition index_dup :: MetaFile where
  "index_dup = \<lparr>Files = [''a.md'' \<mapsto> fixture [''a.md'', ''a.md'']]\<rparr>"

definition index_chain :: MetaFile where
  "index_chain = \<lparr>Files = [''A'' \<mapsto> fixture [''B''], ''B'' \<mapsto> fixture [''A'', ''C''],
                            ''C'' \<mapsto> fixture [''B'']]\<rparr>"

definition index_triangle :: MetaFile where
  "index_triangle = \<lparr>Files = [''A'' \<mapsto> fixture [''B'', ''C''], ''B'' \<mapsto> fixture [''A'', ''C''],
                               ''C'' \<mapsto> fixture [''A'', ''B'']]\<rparr>"

definition quoted_note :: "string list \<Rightarrow> Note" where
  "quoted_note tags =
     \<lparr>Filename = ''n.md'',
      Frontmatter = \<lparr>Created = zeroTime, Tags = tags, Summary = [], Related = []\<rparr>,
      Content = ''body''\<rparr>"

definition same_content_note :: "string list \<Rightarrow> string \<Rightarrow> Note" where
  "same_content_note tags summary =
     \<lparr>Filename = [], Frontmatter = \<lparr>Created = zeroTime, Tags = tags, Summary = summary,
                                     Related = []\<rparr>,
      Content = ''Same content''\<rparr>"

definition test_note :: Note where
  "test_note = \<lparr>Filename = ''notes/test.md'',
                 Frontmatter = \<lparr>Created = zeroTime, Tags = [''tag1'', ''tag2''],
                                Summary = ''Test summary'', Related = [''other.md'']\<rparr>,
                 Content = ''Body content''\<rparr>"

text \<open>
  The note of \<^verbatim>\<open>TestToMarkdown\<close>, and the first input of \<^verbatim>\<open>TestParseNoteContent\<close>
  with the note that it holds.
\<close>

definition markdown_note :: Note where
  "markdown_note =
     \<lparr>Filename = [],
      Frontmatter = \<lparr>Created = \<lparr>Year = 2025, Month = 1, Day = 11, Hour = 14, Minute = 23,
                                 Second = 0, Nanosecond = 0, Offset = 0\<rparr>,
                     Tags = [''neo'', ''eval''], Summary = ''Test summary'',
                     Related = [''other.md'']\<rparr>,
      Content = ''\<newline>Body content here.\<newline>''\<rparr>"

definition valid_content :: string where
  "valid_content =
     ''---\<newline>created: 2025-01-11 14:23\<newline>tags: [neo, eval, idea]\<newline>summary: ''
     @ [CHR 0x22] @ ''Test summary'' @ [CHR 0x22]
     @ ''\<newline>related: []\<newline>---\<newline>\<newline>Body content here.\<newline>''"

definition valid_note :: Note where
  "valid_note =
     \<lparr>Filename = ''test.md'',
      Frontmatter = \<lparr>Created = \<lparr>Year = 2025, Month = 1, Day = 11, Hour = 14, Minute = 23,
                                 Second = 0, Nanosecond = 0, Offset = 0\<rparr>,
                     Tags = [''neo'', ''eval'', ''idea''], Summary = ''Test summary'',
                     Related = []\<rparr>,
      Content = ''\<newline>Body content here.\<newline>''\<rparr>"

section \<open>Properties of the metadata index\<close>

lemma Contains_set: "Contains xs x \<longleftrightarrow> x \<in> set xs"
  by (induction xs) auto

lemma RemoveString_filter: "RemoveString xs x = filter (\<lambda>s. s \<noteq> x) xs"
  by (induction xs) auto

lemma count_list_append_one: "count_list (xs @ [x]) y = count_list xs y + (if x = y then 1 else 0)"
  by (induction xs) auto

lemma count_list_zero_iff: "count_list xs x = 0 \<longleftrightarrow> x \<notin> set xs"
  by (induction xs) auto

subsection \<open>Staleness\<close>

text \<open>
  Claim C2. \<open>NeedsEnrichment\<close> holds exactly when the index has no entry for the
  identifier or the stored fingerprint differs from the given one; the tags, summary,
  related list and enrichment time of the entry play no part.
\<close>

theorem NeedsEnrichment_iff:
  "(NeedsEnrichment m i h \<longleftrightarrow>
      (Files m i = None \<or> (\<exists>e. Files m i = Some e \<and> ContentHash e \<noteq> h)))
   \<and> \<not> NeedsEnrichment
         (SetFileMeta m i
            \<lparr>ContentHash = h, EnrichedAt = t, Tags = ts, Summary = s, Related = r\<rparr>) i h"
  by (auto simp: NeedsEnrichment_def SetFileMeta_def split: option.splits)

subsection \<open>Updating an entry from a note\<close>

lemma UpdateFromNote_entry:
  "Files (UpdateFromNote m note) (Base (Filename note)) =
     Some \<lparr>ContentHash = Note_ContentHash note,
           EnrichedAt = (case Files m (Base (Filename note)) of
                           None \<Rightarrow> zeroTime | Some e \<Rightarrow> EnrichedAt e),
           Tags = Frontmatter.Tags (Frontmatter note),
           Summary = Frontmatter.Summary (Frontmatter note),
           Related = Frontmatter.Related (Frontmatter note)\<rparr>"
  by (simp add: UpdateFromNote_def Let_def FileMeta_zero_def split: option.splits)

lemma UpdateFromNote_other:
  "k \<noteq> Base (Filename note) \<Longrightarrow> Files (UpdateFromNote m note) k = Files m k"
  by (simp add: UpdateFromNote_def Let_def)

lemma UpdateFromNoteWithEnrichment_eq:
  "UpdateFromNoteWithEnrichment m note now =
     Some ((UpdateFromNote m note)\<lparr>Files := (Files (UpdateFromNote m note))
        (Base (Filename note) \<mapsto>
           \<lparr>ContentHash = Note_ContentHash note, EnrichedAt = now,
            Tags = Frontmatter.Tags (Frontmatter note),
            Summary = Frontmatter.Summary (Frontmatter note),
            Related = Frontmatter.Related (Frontmatter note)\<rparr>)\<rparr>)"
  by (simp add: UpdateFromNoteWithEnrichment_def Let_def UpdateFromNote_entry)

text \<open>
  Claim C8. \<open>UpdateFromNote\<close> stores the note's fingerprint, tags, summary and related
  list under the base name of the note's file and keeps the enrichment time the entry
  had (the zero time when there was no entry); no other entry changes. Only
  \<open>UpdateFromNoteWithEnrichment\<close> writes the current time into \<open>EnrichedAt\<close>, and it
  always returns.
\<close>

theorem UpdateFromNote_frame:
  "(\<exists>e'. Files (UpdateFromNote m note) (Base (Filename note)) = Some e'
        \<and> ContentHash e' = Note_ContentHash note
        \<and> FileMeta.Tags e' = Frontmatter.Tags (Frontmatter note)
        \<and> FileMeta.Summary e' = Frontmatter.Summary (Frontmatter note)
        \<and> FileMeta.Related e' = Frontmatter.Related (Frontmatter note)
        \<and> EnrichedAt e' = (case Files m (Base (Filename note)) of
                             None \<Rightarrow> zeroTime | Some e \<Rightarrow> EnrichedAt e))
   \<and> (\<forall>k. k \<noteq> Base (Filename note) \<longrightarrow> Files (UpdateFromNote m note) k = Files m k)
   \<and> (\<exists>m' e'. UpdateFromNoteWithEnrichment m note now = Some m'
        \<and> Files m' (Base (Filename note)) = Some e'
        \<and> EnrichedAt e' = now
        \<and> ContentHash e' = Note_ContentHash note
        \<and> FileMeta.Tags e' = Frontmatter.Tags (Frontmatter note)
        \<and> FileMeta.Summary e' = Frontmatter.Summary (Frontmatter note)
        \<and> FileMeta.Related e' = Frontmatter.Related (Frontmatter note)
        \<and> (\<forall>k. k \<noteq> Base (Filename note) \<longrightarrow> Files m' k = Files m k))"
proof (intro conjI)
  show "\<exists>e'. Files (UpdateFromNote m note) (Base (Filename note)) = Some e'
        \<and> ContentHash e' = Note_ContentHash note
        \<and> FileMeta.Tags e' = Frontmatter.Tags (Frontmatter note)
        \<and> FileMeta.Summary e' = Frontmatter.Summary (Frontmatter note)
        \<and> FileMeta.Related e' = Frontmatter.Related (Frontmatter note)
        \<and> EnrichedAt e' = (case Files m (Base (Filename note)) of
                             None \<Rightarrow> zeroTime | Some e \<Rightarrow> EnrichedAt e)"
    by (simp add: UpdateFromNote_entry)
  show "\<forall>k. k \<noteq> Base (Filename note) \<longrightarrow> Files (UpdateFromNote m note) k = Files m k"
    by (simp add: UpdateFromNote_other)
  show "\<exists>m' e'. UpdateFromNoteWithEnrichment m note now = Some m'
        \<and> Files m' (Base (Filename note)) = Some e'
        \<and> EnrichedAt e' = now
        \<and> ContentHash e' = Note_ContentHash note
        \<and> FileMeta.Tags e' = Frontmatter.Tags (Frontmatter note)
        \<and> FileMeta.Summary e' = Frontmatter.Summary (Frontmatter note)
        \<and> FileMeta.Related e' = Frontmatter.Related (Frontmatter note)
        \<and> (\<forall>k. k \<noteq> Base (Filename note) \<longrightarrow> Files m' k = Files m k)"
    by (simp add: UpdateFromNoteWithEnrichment_eq UpdateFromNote_other)
qed

subsection \<open>Relations\<close>

lemma MetaFile_eqI: "Files x = Files y \<Longrightarrow> x = (y::MetaFile)"
  by (cases x, cases y) simp

lemma AddRelation_from:
  "Files m a = Some ea \<Longrightarrow>
   Files (AddRelation m a b) a =
     Some (ea\<lparr>FileMeta.Related :=
       (if b \<in> set (FileMeta.Related ea) then FileMeta.Related ea
        else FileMeta.Related ea @ [b])\<rparr>)"
  by (auto simp: AddRelation_def Let_def Contains_set split: option.splits)

lemma AddRelation_to:
  "Files m b = Some eb \<Longrightarrow>
   Files (AddRelation m a b) b =
     Some (eb\<lparr>FileMeta.Related :=
       (if a \<in> set (FileMeta.Related eb) then FileMeta.Related eb
        else FileMeta.Related eb @ [a])\<rparr>)"
  by (auto simp: AddRelation_def Let_def Contains_set split: option.splits)

lemma AddRelation_other:
  "k \<noteq> a \<Longrightarrow> k \<noteq> b \<Longrightarrow> Files (AddRelation m a b) k = Files m k"
  by (auto simp: AddRelation_def Let_def split: option.splits)

lemma AddRelation_None:
  "Files m k = None \<Longrightarrow> Files (AddRelation m a b) k = None"
  by (auto simp: AddRelation_def Let_def split: option.splits)

lemma AddRelation_idem: "AddRelation (AddRelation m a b) a b = AddRelation m a b"
proof (rule MetaFile_eqI, rule ext)
  fix k
  let ?m = "AddRelation m a b"
  show "Files (AddRelation ?m a b) k = Files ?m k"
  proof (cases "k = a \<or> k = b")
    case False
    then show ?thesis by (simp add: AddRelation_other)
  next
    case True
    show ?thesis
    proof (cases "Files m k")
      case None
      then show ?thesis by (simp add: AddRelation_None)
    next
      case (Some e)
      from True show ?thesis
      proof
        assume "k = a"
        with Some show ?thesis by (simp add: AddRelation_from)
      next
        assume "k = b"
        with Some show ?thesis by (simp add: AddRelation_to)
      qed
    qed
  qed
qed

lemma RemoveRelation_from:
  "Files m a = Some ea \<Longrightarrow>
   Files (RemoveRelation m a b) a =
     Some (ea\<lparr>FileMeta.Related := filter (\<lambda>s. s \<noteq> b) (FileMeta.Related ea)\<rparr>)"
  by (auto simp: RemoveRelation_def Let_def RemoveString_filter split: option.splits)

lemma RemoveRelation_to:
  "Files m b = Some eb \<Longrightarrow>
   Files (RemoveRelation m a b) b =
     Some (eb\<lparr>FileMeta.Related := filter (\<lambda>s. s \<noteq> a) (FileMeta.Related eb)\<rparr>)"
  by (auto simp: RemoveRelation_def Let_def RemoveString_filter split: option.splits)

lemma RemoveRelation_None:
  "Files m k = None \<Longrightarrow> Files (RemoveRelation m a b) k = None"
  by (auto simp: RemoveRelation_def Let_def split: option.splits)

lemma filter_absent: "x \<notin> set xs \<Longrightarrow> filter (\<lambda>s. s \<noteq> x) xs = xs"
  by (induction xs) auto

lemma count_list_add:
  "count_list (if x \<in> set xs then xs else xs @ [x]) x = max 1 (count_list xs x)"
proof (cases "x \<in> set xs")
  case True
  then have "count_list xs x \<noteq> 0" by (simp add: count_list_zero_iff)
  with True show ?thesis by simp
next
  case False
  then have "count_list xs x = 0" by (simp add: count_list_zero_iff)
  with False show ?thesis by (simp add: count_list_append_one)
qed

text \<open>
  Claim C4. A side that has an entry gets the other identifier: after \<open>AddRelation m a b\<close>
  the list of \<open>a\<close> contains \<open>b\<close> and the list of \<open>b\<close> contains \<open>a\<close>, an identifier that
  was already listed is not added again (its number of occurrences stays, otherwise it
  becomes 1), and adding a second time changes nothing. After \<open>RemoveRelation m a b\<close>
  neither list contains the other identifier, and a list that did not contain it is left
  as it was. A side without an entry still has none afterwards.
\<close>

theorem relation_symmetry:
  "(Files m a = Some ea \<longrightarrow>
      (\<exists>ea'. Files (AddRelation m a b) a = Some ea'
         \<and> b \<in> set (FileMeta.Related ea')
         \<and> count_list (FileMeta.Related ea') b = max 1 (count_list (FileMeta.Related ea) b))
    \<and> (\<exists>ea'. Files (RemoveRelation m a b) a = Some ea'
         \<and> b \<notin> set (FileMeta.Related ea')
         \<and> (b \<notin> set (FileMeta.Related ea) \<longrightarrow> FileMeta.Related ea' = FileMeta.Related ea)))
   \<and> (Files m b = Some eb \<longrightarrow>
      (\<exists>eb'. Files (AddRelation m a b) b = Some eb'
         \<and> a \<in> set (FileMeta.Related eb')
         \<and> count_list (FileMeta.Related eb') a = max 1 (count_list (FileMeta.Related eb) a))
    \<and> (\<exists>eb'. Files (RemoveRelation m a b) b = Some eb'
         \<and> a \<notin> set (FileMeta.Related eb')
         \<and> (a \<notin> set (FileMeta.Related eb) \<longrightarrow> FileMeta.Related eb' = FileMeta.Related eb)))
   \<and> AddRelation (AddRelation m a b) a b = AddRelation m a b
   \<and> (Files m a = None \<longrightarrow>
        Files (AddRelation m a b) a = None \<and> Files (RemoveRelation m a b) a = None)
   \<and> (Files m b = None \<longrightarrow>
        Files (AddRelation m a b) b = None \<and> Files (RemoveRelation m a b) b = None)"
proof (intro conjI impI)
  assume a: "Files m a = Some ea"
  show "\<exists>ea'. Files (AddRelation m a b) a = Some ea'
         \<and> b \<in> set (FileMeta.Related ea')
         \<and> count_list (FileMeta.Related ea') b = max 1 (count_list (FileMeta.Related ea) b)"
    using count_list_add [of b "FileMeta.Related ea"] by (simp add: AddRelation_from [OF a])
  show "\<exists>ea'. Files (RemoveRelation m a b) a = Some ea'
         \<and> b \<notin> set (FileMeta.Related ea')
         \<and> (b \<notin> set (FileMeta.Related ea) \<longrightarrow> FileMeta.Related ea' = FileMeta.Related ea)"
    by (simp add: RemoveRelation_from [OF a] filter_absent)
next
  assume b: "Files m b = Some eb"
  show "\<exists>eb'. Files (AddRelation m a b) b = Some eb'
         \<and> a \<in> set (FileMeta.Related eb')
         \<and> count_list (FileMeta.Related eb') a = max 1 (count_list (FileMeta.Related eb) a)"
    using count_list_add [of a "FileMeta.Related eb"] by (simp add: AddRelation_to [OF b])
  show "\<exists>eb'. Files (RemoveRelation m a b) b = Some eb'
         \<and> a \<notin> set (FileMeta.Related eb')
         \<and> (a \<notin> set (FileMeta.Related eb) \<longrightarrow> FileMeta.Related eb' = FileMeta.Related eb)"
    by (simp add: RemoveRelation_to [OF b] filter_absent)
next
  show "AddRelation (AddRelation m a b) a b = AddRelation m a b"
    by (rule AddRelation_idem)
next
  assume "Files m a = None"
  then show "Files (AddRelation m a b) a = None" by (rule AddRelation_None)
next
  assume "Files m a = None"
  then show "Files (RemoveRelation m a b) a = None" by (rule RemoveRelation_None)
next
  assume "Files m b = None"
  then show "Files (AddRelation m a b) b = None" by (rule AddRelation_None)
next
  assume "Files m b = None"
  then show "Files (RemoveRelation m a b) b = None" by (rule RemoveRelation_None)
qed

text \<open>
  Claim C10, as the code has it. \<open>AddRelation m a a\<close> appends \<open>a\<close> to its own list when
  it is absent and leaves the list as it is otherwise, so \<open>a\<close> occurs once afterwards
  when it occurred at most once before, and as often as before when the list already
  held it several times. The entry's other fields and all other entries are unchanged.
\<close>

theorem AddRelation_self:
  assumes "Files m a = Some ea"
  shows "Files (AddRelation m a a) a =
           Some (ea\<lparr>FileMeta.Related :=
             (if a \<in> set (FileMeta.Related ea) then FileMeta.Related ea
              else FileMeta.Related ea @ [a])\<rparr>)
         \<and> (\<exists>ea'. Files (AddRelation m a a) a = Some ea'
              \<and> count_list (FileMeta.Related ea') a = max 1 (count_list (FileMeta.Related ea) a))
         \<and> (\<forall>k. k \<noteq> a \<longrightarrow> Files (AddRelation m a a) k = Files m k)"
  using assms count_list_add [of a "FileMeta.Related ea"]
  by (simp add: AddRelation_from AddRelation_other)

subsection \<open>Removing the entries of deleted notes\<close>

lemma CmdSync_remove_files:
  "Files (CmdSync_remove isNotExist False keys m) k =
     (if k \<in> set keys \<and> isNotExist k then None else Files m k)"
  by (induction keys arbitrary: m) auto

lemma CmdSync_remove_dry: "CmdSync_remove isNotExist True keys m = m"
  by (induction keys arbitrary: m) auto

text \<open>
  Claim C9. When the loop has visited every key of the index, the entries left are
  exactly those whose note still exists, each with the contents it had; the entries of
  the notes that no longer exist are gone. (With \<^verbatim>\<open>--dry-run\<close> nothing is removed.)
\<close>

theorem CmdSync_remove_exact:
  assumes "set keys = dom (Files m)"
  shows "dom (Files (CmdSync_remove isNotExist False keys m)) =
           dom (Files m) \<inter> {k. \<not> isNotExist k}
         \<and> (\<forall>k. \<not> isNotExist k \<longrightarrow>
               Files (CmdSync_remove isNotExist False keys m) k = Files m k)
         \<and> (\<forall>k. isNotExist k \<longrightarrow> Files (CmdSync_remove isNotExist False keys m) k = None)
         \<and> CmdSync_remove isNotExist True keys m = m"
proof (intro conjI allI impI)
  show "dom (Files (CmdSync_remove isNotExist False keys m)) =
          dom (Files m) \<inter> {k. \<not> isNotExist k}"
    using assms by (auto simp: CmdSync_remove_files dom_def)
next
  fix k assume "\<not> isNotExist k"
  then show "Files (CmdSync_remove isNotExist False keys m) k = Files m k"
    by (simp add: CmdSync_remove_files)
next
  fix k assume "isNotExist k"
  then show "Files (CmdSync_remove isNotExist False keys m) k = None"
    using assms by (auto simp: CmdSync_remove_files)
next
  show "CmdSync_remove isNotExist True keys m = m"
    by (rule CmdSync_remove_dry)
qed

subsection \<open>The properties on the example indexes\<close>

lemma Base_test_note: "Base (Filename test_note) = ''test.md''"
  by (simp add: Base_def test_note_def)

theorem NeedsEnrichment_iff_witness:
  "\<not> NeedsEnrichment
       (SetFileMeta index_ab ''note1.md''
          \<lparr>ContentHash = ''aaaa1111bbbb'', EnrichedAt = zeroTime, Tags = [''x''],
           Summary = ''s'', Related = []\<rparr>) ''note1.md'' ''aaaa1111bbbb''
   \<and> NeedsEnrichment index_ab ''new.md'' ''xyz789''"
  using NeedsEnrichment_iff [of index_ab "''note1.md''" "''aaaa1111bbbb''" zeroTime "[''x'']" "''s''" "[]"]
        NeedsEnrichment_iff [of index_ab "''new.md''" "''xyz789''"]
  by (simp add: index_ab_def)

theorem UpdateFromNote_frame_witness:
  "Files (UpdateFromNote index_ab test_note) ''a.md'' = Files index_ab ''a.md''
   \<and> (\<exists>e'. Files (UpdateFromNote index_ab test_note) ''test.md'' = Some e'
         \<and> FileMeta.Summary e' = ''Test summary'' \<and> EnrichedAt e' = zeroTime)
   \<and> (\<exists>m' e'. UpdateFromNoteWithEnrichment index_ab test_note (zeroTime\<lparr>Year := 2025\<rparr>) = Some m'
         \<and> Files m' ''test.md'' = Some e' \<and> EnrichedAt e' = zeroTime\<lparr>Year := 2025\<rparr>
         \<and> Files m' ''a.md'' = Files index_ab ''a.md'')"
proof -
  let ?k = "Base (Filename test_note)"
  have none: "Files index_ab ?k = None"
    by (simp add: index_ab_def Base_test_note)
  have sm: "Frontmatter.Summary (Frontmatter test_note) = ''Test summary''"
    by (simp add: test_note_def)
  have ne: "''a.md'' \<noteq> ?k"
    by (simp add: Base_test_note)
  from UpdateFromNote_frame [of index_ab test_note "zeroTime\<lparr>Year := 2025\<rparr>"]
  obtain e1 m2 e2 where
    e1: "Files (UpdateFromNote index_ab test_note) ?k = Some e1"
      "FileMeta.Summary e1 = Frontmatter.Summary (Frontmatter test_note)"
      "EnrichedAt e1 = (case Files index_ab ?k of None \<Rightarrow> zeroTime | Some e \<Rightarrow> EnrichedAt e)"
    and other: "\<forall>k. k \<noteq> ?k \<longrightarrow> Files (UpdateFromNote index_ab test_note) k = Files index_ab k"
    and m2: "UpdateFromNoteWithEnrichment index_ab test_note (zeroTime\<lparr>Year := 2025\<rparr>) = Some m2"
      "Files m2 ?k = Some e2" "EnrichedAt e2 = zeroTime\<lparr>Year := 2025\<rparr>"
      "\<forall>k. k \<noteq> ?k \<longrightarrow> Files m2 k = Files index_ab k"
    by blast
  have a: "Files (UpdateFromNote index_ab test_note) ''a.md'' = Files index_ab ''a.md''"
    using other ne by blast
  have b: "\<exists>e'. Files (UpdateFromNote index_ab test_note) ''test.md'' = Some e'
         \<and> FileMeta.Summary e' = ''Test summary'' \<and> EnrichedAt e' = zeroTime"
    using e1 none sm by (simp add: Base_test_note)
  have c: "\<exists>m' e'. UpdateFromNoteWithEnrichment index_ab test_note (zeroTime\<lparr>Year := 2025\<rparr>) = Some m'
         \<and> Files m' ''test.md'' = Some e' \<and> EnrichedAt e' = zeroTime\<lparr>Year := 2025\<rparr>
         \<and> Files m' ''a.md'' = Files index_ab ''a.md''"
    using m2 ne by (simp add: Base_test_note)
  from a b c show ?thesis by blast
qed

theorem relation_symmetry_witness:
  "(\<exists>ea'. Files (AddRelation index_ab ''a.md'' ''b.md'') ''a.md'' = Some ea'
        \<and> ''b.md'' \<in> set (FileMeta.Related ea'))
   \<and> (\<exists>eb'. Files (AddRelation index_ab ''a.md'' ''b.md'') ''b.md'' = Some eb'
        \<and> ''a.md'' \<in> set (FileMeta.Related eb'))
   \<and> (\<exists>ea'. Files (RemoveRelation index_ab ''a.md'' ''b.md'') ''a.md'' = Some ea'
        \<and> FileMeta.Related ea' = [])
   \<and> Files (AddRelation index_ab ''a.md'' ''c.md'') ''c.md'' = None
   \<and> (\<exists>ea'. Files (AddRelation index_ab ''a.md'' ''c.md'') ''a.md'' = Some ea'
        \<and> ''c.md'' \<in> set (FileMeta.Related ea'))"
proof -
  have a: "Files index_ab ''a.md'' = Some (fixture [])"
    and b: "Files index_ab ''b.md'' = Some (fixture [])"
    and c: "Files index_ab ''c.md'' = None"
    by (simp_all add: index_ab_def)
  have r: "FileMeta.Related (fixture []) = []"
    by (simp add: fixture_def)
  show ?thesis
    using relation_symmetry [of index_ab "''a.md''" "fixture []" "''b.md''" "fixture []"]
          relation_symmetry [of index_ab "''a.md''" "fixture []" "''c.md''" "fixture []"] a b c r
    by auto
qed

theorem AddRelation_self_witness:
  "Files index_ab ''a.md'' = Some (fixture [])
   \<and> Files (AddRelation index_ab ''a.md'' ''a.md'') ''a.md'' = Some (fixture [''a.md''])
   \<and> Files (AddRelation index_ab ''a.md'' ''a.md'') ''b.md'' = Files index_ab ''b.md''"
proof -
  have a: "Files index_ab ''a.md'' = Some (fixture [])"
    by (simp add: index_ab_def)
  show ?thesis
    using a AddRelation_self [OF a] by (simp add: fixture_def)
qed

text \<open>
  Claim C10 as stated fails where the list already holds the note twice (nothing
  removes duplicates that a note's header brought in): it still holds it twice.
\<close>

theorem AddRelation_self_counterexample:
  "Files index_dup ''a.md'' = Some (fixture [''a.md'', ''a.md''])
   \<and> Files (AddRelation index_dup ''a.md'' ''a.md'') ''a.md'' = Some (fixture [''a.md'', ''a.md''])
   \<and> count_list (FileMeta.Related (fixture [''a.md'', ''a.md''])) ''a.md'' = 2"
  by (simp add: index_dup_def AddRelation_def fixture_def)

theorem CmdSync_remove_exact_witness:
  "set [''a.md'', ''b.md''] = dom (Files index_ab)
   \<and> Files (CmdSync_remove (\<lambda>f. f = ''b.md'') False [''a.md'', ''b.md''] index_ab) ''b.md'' = None
   \<and> Files (CmdSync_remove (\<lambda>f. f = ''b.md'') False [''a.md'', ''b.md''] index_ab) ''a.md''
       = Files index_ab ''a.md''"
proof -
  have h: "set [''a.md'', ''b.md''] = dom (Files index_ab)"
    unfolding index_ab_def by (simp add: insert_commute)
  note th = CmdSync_remove_exact [OF h, of "\<lambda>f. f = ''b.md''"]
  note kept = th [THEN conjunct2, THEN conjunct1, rule_format, of "''a.md''"]
  note gone = th [THEN conjunct2, THEN conjunct2, THEN conjunct1, rule_format, of "''b.md''"]
  have a: "Files (CmdSync_remove (\<lambda>f. f = ''b.md'') False [''a.md'', ''b.md''] index_ab) ''a.md''
       = Files index_ab ''a.md''"
    by (rule kept) simp
  have b: "Files (CmdSync_remove (\<lambda>f. f = ''b.md'') False [''a.md'', ''b.md''] index_ab) ''b.md'' = None"
    by (rule gone) simp
  from h a b show ?thesis by (intro conjI)
qed

section \<open>Properties of the relationship graph\<close>

lemma printTree_inv:
  "printTree fromFile quote meta related depth prefix visited = (ts, v') \<Longrightarrow>
   visited \<subseteq> v' \<and> distinct (concat (map printed_expanded ts))
   \<and> set (concat (map printed_expanded ts)) \<subseteq> v' - visited"
proof (induction fromFile quote meta related depth prefix visited arbitrary: ts v'
       rule: printTree.induct)
  case (1 fromFile quote meta depth prefix visited)
  then show ?case by simp
next
  case (2 fromFile quote meta rel related depth prefix visited)
  let ?line = "prefix @ (if related = [] then connector_last else connector_mid) @ rel @ '' ''
                @ quote (getSummary fromFile meta rel) @ ''\<newline>''"
  let ?child = "prefix @ (if related = [] then prefix_last else prefix_mid)"
  let ?v = "insert rel visited"
  define r1 where "r1 =
     (if 0 < sint depth \<and> rel \<notin> visited
      then (case GetFileMeta meta rel of
              None \<Rightarrow> ([], ?v)
            | Some fileMeta \<Rightarrow>
                if length (FileMeta.Related fileMeta) > 0
                then (let unvisited = filter (\<lambda>r. r \<notin> ?v) (FileMeta.Related fileMeta)
                      in if length unvisited > 0
                         then printTree fromFile quote meta unvisited (depth - 1) ?child ?v
                         else ([], ?v))
                else ([], ?v))
      else ([], visited))"
  obtain below v1 where r1: "r1 = (below, v1)" by (cases r1)
  obtain others v2 where r2: "printTree fromFile quote meta related depth prefix v1 = (others, v2)"
    by (cases "printTree fromFile quote meta related depth prefix v1")
  have step: "printTree fromFile quote meta (rel # related) depth prefix visited =
      (case r1 of (below, visited1) \<Rightarrow>
         (case printTree fromFile quote meta related depth prefix visited1 of
            (others, visited2) \<Rightarrow> (Printed rel ?line below # others, visited2)))"
    unfolding r1_def by (simp add: Let_def del: insert_iff cong: option.case_cong if_cong)
  have res: "ts = Printed rel ?line below # others" "v' = v2"
    using "2.prems" r1 r2 unfolding step by simp_all
  have inv1: "visited \<subseteq> v1 \<and> distinct (concat (map printed_expanded below))
      \<and> set (concat (map printed_expanded below)) \<subseteq> v1 - ?v
      \<and> (below \<noteq> [] \<longrightarrow> rel \<notin> visited \<and> rel \<in> v1)"
  proof (cases "0 < sint depth \<and> rel \<notin> visited")
    case False
    with r1 show ?thesis unfolding r1_def by auto
  next
    case True
    show ?thesis
    proof (cases "GetFileMeta meta rel")
      case None
      with True r1 show ?thesis unfolding r1_def by auto
    next
      case (Some fileMeta)
      let ?unv = "filter (\<lambda>r. r \<notin> ?v) (FileMeta.Related fileMeta)"
      show ?thesis
      proof (cases "length (FileMeta.Related fileMeta) > 0 \<and> length ?unv > 0")
        case False
        then have "r1 = ([], ?v)"
          unfolding r1_def using True Some by (auto simp add: Let_def simp del: insert_iff)
        with True r1 show ?thesis by auto
      next
        case t: True
        then have call: "printTree fromFile quote meta ?unv (depth - 1) ?child ?v = (below, v1)"
          using True Some r1 unfolding r1_def by (simp add: Let_def del: insert_iff)
        have "?v \<subseteq> v1 \<and> distinct (concat (map printed_expanded below))
              \<and> set (concat (map printed_expanded below)) \<subseteq> v1 - ?v"
          using "2.IH"(1) [OF refl refl refl refl refl _ Some _ refl _ call] True t by simp
        with True show ?thesis by auto
      qed
    qed
  qed
  have inv2: "v1 \<subseteq> v2 \<and> distinct (concat (map printed_expanded others))
      \<and> set (concat (map printed_expanded others)) \<subseteq> v2 - v1"
    using "2.IH"(2) [OF refl refl refl refl refl r1 [unfolded r1_def, symmetric] r2] .
  let ?E1 = "set (concat (map printed_expanded below))"
  let ?E2 = "set (concat (map printed_expanded others))"
  have disj: "?E1 \<inter> ?E2 = {}" using inv1 inv2 by blast
  have n1: "rel \<notin> ?E1" using inv1 by blast
  have n2: "below \<noteq> [] \<longrightarrow> rel \<notin> ?E2" using inv1 inv2 by blast
  have sub: "?E1 \<subseteq> v2 - visited" "?E2 \<subseteq> v2 - visited" "visited \<subseteq> v2"
    using inv1 inv2 by blast+
  have relin: "below \<noteq> [] \<longrightarrow> rel \<in> v2 - visited" using inv1 inv2 by blast
  have exp: "concat (map printed_expanded ts) =
      (if below = [] then [] else [rel]) @ concat (map printed_expanded below)
        @ concat (map printed_expanded others)"
    using res by simp
  have "distinct (concat (map printed_expanded ts))"
    unfolding exp using inv1 inv2 disj n1 n2 by simp
  moreover have "set (concat (map printed_expanded ts)) \<subseteq> v' - visited"
    unfolding exp using sub relin res by (simp del: set_concat)
  ultimately show ?case using sub res by simp
qed

lemma buildGraph_inv:
  "visited \<subseteq> snd (buildGraph fromFile meta f d visited)
   \<and> distinct (graph_expanded (fst (buildGraph fromFile meta f d visited)))
   \<and> set (graph_expanded (fst (buildGraph fromFile meta f d visited)))
        \<subseteq> snd (buildGraph fromFile meta f d visited) - visited"
  "visited \<subseteq> snd (buildGraph_range fromFile meta rels d visited)
   \<and> distinct (concat (map graph_expanded (fst (buildGraph_range fromFile meta rels d visited))))
   \<and> set (concat (map graph_expanded (fst (buildGraph_range fromFile meta rels d visited))))
        \<subseteq> snd (buildGraph_range fromFile meta rels d visited) - visited"
proof (induction fromFile meta f d visited and fromFile meta rels d visited
       rule: buildGraph_buildGraph_range.induct)
  case (1 fromFile meta f d visited)
  show ?case
  proof (cases "sint d \<le> 0 \<or> f \<in> visited")
    case True
    then show ?thesis by auto
  next
    case False
    show ?thesis
    proof (cases "GetFileMeta meta f")
      case None
      with False show ?thesis by auto
    next
      case (Some fileMeta)
      let ?r = "buildGraph_range fromFile meta (FileMeta.Related fileMeta) (d - 1) (insert f visited)"
      have eq: "buildGraph fromFile meta f d visited =
                  (GraphNode f (getSummary fromFile meta f) (fst ?r), snd ?r)"
        using False Some by (simp add: case_prod_beta)
      have ih: "insert f visited \<subseteq> snd ?r
                \<and> distinct (concat (map graph_expanded (fst ?r)))
                \<and> set (concat (map graph_expanded (fst ?r))) \<subseteq> snd ?r - insert f visited"
        using "1.IH" [OF False Some] .
      from ih have "f \<notin> set (concat (map graph_expanded (fst ?r)))" by blast
      moreover from ih have "f \<in> snd ?r" "visited \<subseteq> snd ?r"
        "set (concat (map graph_expanded (fst ?r))) \<subseteq> snd ?r - visited" by blast+
      moreover from ih have "distinct (concat (map graph_expanded (fst ?r)))" by blast
      ultimately show ?thesis unfolding eq using False by (simp del: set_concat)
    qed
  qed
next
  case (2 fromFile meta d visited)
  show ?case by simp
next
  case (3 fromFile meta rel rels d visited)
  let ?a = "buildGraph fromFile meta rel d visited"
  let ?b = "buildGraph_range fromFile meta rels d (snd ?a)"
  have eq: "buildGraph_range fromFile meta (rel # rels) d visited = (fst ?a # fst ?b, snd ?b)"
    by (simp add: case_prod_beta del: buildGraph.simps)
  have ih1: "visited \<subseteq> snd ?a \<and> distinct (graph_expanded (fst ?a))
             \<and> set (graph_expanded (fst ?a)) \<subseteq> snd ?a - visited"
    using "3.IH"(1) .
  have ih2: "snd ?a \<subseteq> snd ?b \<and> distinct (concat (map graph_expanded (fst ?b)))
             \<and> set (concat (map graph_expanded (fst ?b))) \<subseteq> snd ?b - snd ?a"
    using "3.IH"(2) [OF prod.collapse] .
  have disj: "set (graph_expanded (fst ?a)) \<inter> set (concat (map graph_expanded (fst ?b))) = {}"
    using ih1 ih2 by blast
  have sub: "set (graph_expanded (fst ?a)) \<subseteq> snd ?b - visited"
    "set (concat (map graph_expanded (fst ?b))) \<subseteq> snd ?b - visited" "visited \<subseteq> snd ?b"
    using ih1 ih2 by blast+
  show ?case unfolding eq using ih1 ih2 disj sub by (simp del: set_concat buildGraph.simps)
qed

lemma fold_max_le: "fold max xs (a::nat) \<le> k \<longleftrightarrow> a \<le> k \<and> (\<forall>x\<in>set xs. x \<le> k)"
  by (induction xs arbitrary: a) auto

lemma buildGraph_height:
  "graph_height (fst (buildGraph fromFile meta f d visited)) \<le> nat (sint d)"
  "\<forall>n\<in>set (fst (buildGraph_range fromFile meta rels d visited)). graph_height n \<le> nat (sint d)"
proof (induction fromFile meta f d visited and fromFile meta rels d visited
       rule: buildGraph_buildGraph_range.induct)
  case (1 fromFile meta f d visited)
  show ?case
  proof (cases "sint d \<le> 0 \<or> f \<in> visited")
    case True
    then show ?thesis by auto
  next
    case False
    show ?thesis
    proof (cases "GetFileMeta meta f")
      case None
      with False show ?thesis by auto
    next
      case (Some fileMeta)
      let ?r = "buildGraph_range fromFile meta (FileMeta.Related fileMeta) (d - 1) (insert f visited)"
      have eq: "buildGraph fromFile meta f d visited =
                  (GraphNode f (getSummary fromFile meta f) (fst ?r), snd ?r)"
        using False Some by (simp add: case_prod_beta)
      have ih: "\<forall>n\<in>set (fst ?r). graph_height n \<le> nat (sint (d - 1))"
        using "1.IH" [OF False Some] .
      from False have "0 < sint d" by simp
      then have d: "Suc (nat (sint (d - 1))) = nat (sint d)" by (simp add: sint_pred)
      from ih have "fold max (map graph_height (fst ?r)) 0 \<le> nat (sint (d - 1))"
        by (simp add: fold_max_le)
      with d show ?thesis unfolding eq by simp
    qed
  qed
next
  case (2 fromFile meta d visited)
  show ?case by simp
next
  case (3 fromFile meta rel rels d visited)
  let ?a = "buildGraph fromFile meta rel d visited"
  let ?b = "buildGraph_range fromFile meta rels d (snd ?a)"
  have eq: "buildGraph_range fromFile meta (rel # rels) d visited = (fst ?a # fst ?b, snd ?b)"
    by (simp add: case_prod_beta del: buildGraph.simps)
  show ?case unfolding eq using "3.IH"(1) "3.IH"(2) [OF prod.collapse]
    by (simp del: buildGraph.simps)
qed

lemma buildGraph_depth0:
  "sint d \<le> 0 \<Longrightarrow> buildGraph fromFile meta f d visited
                 = (GraphNode f (getSummary fromFile meta f) [], visited)"
  by simp

lemma Files_chain:
  "GetFileMeta index_chain ''A'' = Some (fixture [''B''])"
  "GetFileMeta index_chain ''B'' = Some (fixture [''A'', ''C''])"
  "GetFileMeta index_chain ''C'' = Some (fixture [''B''])"
  by (simp_all add: index_chain_def GetFileMeta_def)

lemma Files_triangle:
  "GetFileMeta index_triangle ''A'' = Some (fixture [''B'', ''C''])"
  "GetFileMeta index_triangle ''B'' = Some (fixture [''A'', ''C''])"
  "GetFileMeta index_triangle ''C'' = Some (fixture [''A'', ''B''])"
  by (simp_all add: index_triangle_def GetFileMeta_def)

lemma fixture_Related: "FileMeta.Related (fixture r) = r"
  by (simp add: fixture_def)

lemma text_chain_0:
  "\<exists>t. showNeighborhood (\<lambda>f. False) fromFile quote index_chain ''A'' 0 False = Inr (Text t)
       \<and> printed_nodes t = [''A'', ''B'']"
  by (simp add: showNeighborhood_def Files_chain fixture_Related Let_def)

lemma json_chain_0:
  "\<exists>t. showNeighborhood (\<lambda>f. False) fromFile quote index_chain ''A'' 0 True = Inr (JSON t)
       \<and> graph_nodes t = [''A'']"
  by (simp add: showNeighborhood_def Files_chain fixture_Related Let_def)

lemma text_chain_1:
  "\<exists>t. showNeighborhood (\<lambda>f. False) fromFile quote index_chain ''A'' 1 False = Inr (Text t)
       \<and> printed_nodes t = [''A'', ''B'']"
  by (simp add: showNeighborhood_def Files_chain fixture_Related Let_def)

lemma text_chain_2:
  "\<exists>t. showNeighborhood (\<lambda>f. False) fromFile quote index_chain ''A'' 2 False = Inr (Text t)
       \<and> printed_nodes t = [''A'', ''B'', ''C''] \<and> printed_expanded t = [''A'', ''B'']"
  by (simp add: showNeighborhood_def Files_chain fixture_Related Let_def)

lemma text_chain_smallest_depth:
  "\<exists>t. showNeighborhood (\<lambda>f. False) fromFile quote index_chain ''A'' (- (2 ^ 63)) False
         = Inr (Text t)
       \<and> printed_nodes t = [''A'', ''B'', ''C'']"
  by (simp add: showNeighborhood_def Files_chain fixture_Related Let_def)

lemma json_chain_2:
  "\<exists>t. showNeighborhood (\<lambda>f. False) fromFile quote index_chain ''A'' 2 True = Inr (JSON t)
       \<and> graph_nodes t = [''A'', ''B'', ''A'', ''C'']"
  by (simp add: showNeighborhood_def Files_chain fixture_Related Let_def)

lemma text_triangle_5:
  "\<exists>t. showNeighborhood (\<lambda>f. False) fromFile quote index_triangle ''A'' 5 False = Inr (Text t)
       \<and> printed_nodes t = [''A'', ''B'', ''C'', ''C''] \<and> printed_expanded t = [''A'', ''B'']"
  by (simp add: showNeighborhood_def Files_triangle fixture_Related Let_def)

lemma json_triangle_5:
  "\<exists>t. showNeighborhood (\<lambda>f. False) fromFile quote index_triangle ''A'' 5 True = Inr (JSON t)
       \<and> graph_nodes t = [''A'', ''B'', ''A'', ''C'', ''A'', ''B'', ''C'']
       \<and> graph_expanded t = [''A'', ''B'', ''C'']"
  by (simp add: showNeighborhood_def Files_triangle fixture_Related Let_def)

lemma printTree_root_distinct:
  "distinct (printed_expanded (Printed filename rootLine
      (fst (printTree fromFile quote meta related depth prefix {filename}))))"
proof -
  obtain ts v' where r: "printTree fromFile quote meta related depth prefix {filename} = (ts, v')"
    by (cases "printTree fromFile quote meta related depth prefix {filename}")
  from printTree_inv [OF r]
  have "distinct (concat (map printed_expanded ts))"
    and "filename \<notin> set (concat (map printed_expanded ts))" by blast+
  with r show ?thesis by simp
qed

lemma printTree_avoids_visited:
  "set (concat (map printed_expanded
      (fst (printTree fromFile quote meta related depth prefix visited)))) \<inter> visited = {}"
proof -
  obtain ts v' where r: "printTree fromFile quote meta related depth prefix visited = (ts, v')"
    by (cases "printTree fromFile quote meta related depth prefix visited")
  from printTree_inv [OF r] have "set (concat (map printed_expanded ts)) \<subseteq> v' - visited"
    by blast
  with r show ?thesis by auto
qed

text \<open>
  Claim C6, as the code has it. Both traversals are total functions: their recursion
  descends on the remaining depth and, within one level, on the list still to visit, for
  every index (cyclic or not), every root and every depth a Go \<^verbatim>\<open>int\<close> can hold. In one
  traversal no name is expanded twice, and a name that is in the visited set is not
  expanded. On the triangle of three mutually related notes at depth 5 each of the three
  names is expanded at most once; the text tree has the four nodes \<open>A, B, C, C\<close> and the
  JSON tree seven nodes.
\<close>

theorem neighborhood_expands_once:
  assumes "\<not> isNotExist filename"
  shows "(\<exists>t. showNeighborhood isNotExist fromFile quote meta filename depth True = Inr (JSON t)
            \<and> distinct (graph_expanded t) \<and> graph_height t \<le> nat (sint depth))
       \<and> (\<exists>t. showNeighborhood isNotExist fromFile quote meta filename depth False = Inr (Text t)
            \<and> distinct (printed_expanded t))
       \<and> set (graph_expanded (fst (buildGraph fromFile meta f d visited))) \<inter> visited = {}
       \<and> set (concat (map printed_expanded
                 (fst (printTree fromFile quote meta related d prefix visited)))) \<inter> visited = {}
       \<and> (\<exists>t. showNeighborhood (\<lambda>f. False) fromFile quote index_triangle ''A'' 5 False
                 = Inr (Text t)
            \<and> printed_nodes t = [''A'', ''B'', ''C'', ''C''] \<and> printed_expanded t = [''A'', ''B''])
       \<and> (\<exists>t. showNeighborhood (\<lambda>f. False) fromFile quote index_triangle ''A'' 5 True
                 = Inr (JSON t)
            \<and> graph_nodes t = [''A'', ''B'', ''A'', ''C'', ''A'', ''B'', ''C'']
            \<and> graph_expanded t = [''A'', ''B'', ''C''])"
proof (intro conjI)
  show "\<exists>t. showNeighborhood isNotExist fromFile quote meta filename depth True = Inr (JSON t)
            \<and> distinct (graph_expanded t) \<and> graph_height t \<le> nat (sint depth)"
    using assms buildGraph_inv(1) [of "{}" fromFile meta filename depth]
      buildGraph_height(1) [of fromFile meta filename depth "{}"]
    by (simp add: showNeighborhood_def del: buildGraph.simps)
  show "\<exists>t. showNeighborhood isNotExist fromFile quote meta filename depth False = Inr (Text t)
            \<and> distinct (printed_expanded t)"
    using assms printTree_root_distinct
    by (simp add: showNeighborhood_def Let_def split: option.splits)
  show "set (graph_expanded (fst (buildGraph fromFile meta f d visited))) \<inter> visited = {}"
    using buildGraph_inv(1) [of visited fromFile meta f d] by blast
  show "set (concat (map printed_expanded
                 (fst (printTree fromFile quote meta related d prefix visited)))) \<inter> visited = {}"
    by (rule printTree_avoids_visited)
  show "\<exists>t. showNeighborhood (\<lambda>f. False) fromFile quote index_triangle ''A'' 5 False
                 = Inr (Text t)
            \<and> printed_nodes t = [''A'', ''B'', ''C'', ''C''] \<and> printed_expanded t = [''A'', ''B'']"
    by (rule text_triangle_5)
  show "\<exists>t. showNeighborhood (\<lambda>f. False) fromFile quote index_triangle ''A'' 5 True
                 = Inr (JSON t)
            \<and> graph_nodes t = [''A'', ''B'', ''A'', ''C'', ''A'', ''B'', ''C'']
            \<and> graph_expanded t = [''A'', ''B'', ''C'']"
    by (rule json_triangle_5)
qed

theorem neighborhood_expands_once_witness:
  "\<not> (\<lambda>f. False) ''A''
   \<and> (\<exists>t. showNeighborhood (\<lambda>f. False) (\<lambda>f. []) (\<lambda>s. s) index_chain ''A'' 2 True = Inr (JSON t)
         \<and> distinct (graph_expanded t) \<and> graph_height t \<le> 2)
   \<and> (\<exists>t. showNeighborhood (\<lambda>f. False) (\<lambda>f. []) (\<lambda>s. s) index_chain ''A'' 2 False = Inr (Text t)
         \<and> distinct (printed_expanded t))"
proof -
  have h: "\<not> (\<lambda>f. False) ''A''" by simp
  note th = neighborhood_expands_once
    [where isNotExist = "\<lambda>f. False" and filename = "''A''" and fromFile = "\<lambda>f. []"
       and quote = "\<lambda>s. s" and meta = index_chain and depth = 2, OF h]
  have two: "nat (sint (2::go_int)) = 2" by simp
  from h th [THEN conjunct1, unfolded two] th [THEN conjunct2, THEN conjunct1] show ?thesis
    by (intro conjI)
qed

text \<open>
  Claim C6 as stated asks for a tree of three nodes on the triangle at depth 5.
\<close>

theorem neighborhood_three_nodes_counterexample:
  "\<forall>fromFile quote.
     (\<exists>t. showNeighborhood (\<lambda>f. False) fromFile quote index_triangle ''A'' 5 False = Inr (Text t)
        \<and> length (printed_nodes t) = 4)
     \<and> (\<exists>t. showNeighborhood (\<lambda>f. False) fromFile quote index_triangle ''A'' 5 True = Inr (JSON t)
        \<and> length (graph_nodes t) = 7)"
proof (intro allI conjI)
  fix fromFile quote :: "string \<Rightarrow> string"
  from text_triangle_5 [of fromFile quote]
  show "\<exists>t. showNeighborhood (\<lambda>f. False) fromFile quote index_triangle ''A'' 5 False = Inr (Text t)
        \<and> length (printed_nodes t) = 4"
    by auto
  from json_triangle_5 [of fromFile quote]
  show "\<exists>t. showNeighborhood (\<lambda>f. False) fromFile quote index_triangle ''A'' 5 True = Inr (JSON t)
        \<and> length (graph_nodes t) = 7"
    by auto
qed

text \<open>
  Claim C7 against the code. At depth 0 the JSON branch returns the root alone, whereas
  the text branch still prints the root's related notes: on \<open>A: [B]\<close>, \<open>B: [A, C]\<close>,
  \<open>C: [B]\<close> it prints \<open>A\<close> and, under it, \<open>B\<close>.
\<close>

theorem showNeighborhood_text_depth0:
  "(\<exists>t. showNeighborhood (\<lambda>f. False) fromFile quote index_chain ''A'' 0 False = Inr (Text t)
      \<and> printed_nodes t = [''A'', ''B''])
   \<and> (\<exists>t. showNeighborhood (\<lambda>f. False) fromFile quote index_chain ''A'' 0 True = Inr (JSON t)
      \<and> graph_nodes t = [''A''])"
  using text_chain_0 [of fromFile quote] json_chain_0 [of fromFile quote] by (intro conjI)

section \<open>Properties of the note codec\<close>

subsection \<open>Searching the markers\<close>

lemma HasPrefix_iff: "HasPrefix s p \<longleftrightarrow> (\<exists>q. s = p @ q)"
  by (induction s p rule: HasPrefix.induct) auto

lemma HasSuffix_iff: "HasSuffix s x \<longleftrightarrow> (\<exists>p. s = p @ x)"
proof
  assume "HasSuffix s x"
  then have "length x \<le> length s" and d: "drop (length s - length x) s = x"
    by (simp_all add: HasSuffix_def)
  have "s = take (length s - length x) s @ drop (length s - length x) s" by simp
  with d show "\<exists>p. s = p @ x" by metis
next
  assume "\<exists>p. s = p @ x"
  then show "HasSuffix s x" by (auto simp: HasSuffix_def)
qed

lemma Index_ge: "- 1 \<le> Index s sub"
  by (induction s) (auto simp: Let_def)

lemma Index_none: "Index s sub = - 1 \<longleftrightarrow> \<not> (\<exists>p q. s = p @ sub @ q)"
proof (induction s)
  case Nil
  then show ?case by auto
next
  case (Cons c cs)
  have ge: "- 1 \<le> Index cs sub" by (rule Index_ge)
  show ?case
  proof (cases "HasPrefix (c # cs) sub")
    case True
    then have z: "Index (c # cs) sub = 0" by (simp del: HasPrefix.simps)
    from True obtain q where "c # cs = [] @ sub @ q" by (auto simp: HasPrefix_iff)
    then have "\<exists>p q. c # cs = p @ sub @ q" by blast
    with z show ?thesis by simp
  next
    case False
    then have np: "\<And>q. c # cs \<noteq> sub @ q" by (simp add: HasPrefix_iff)
    have "(\<exists>p q. c # cs = p @ sub @ q) \<longleftrightarrow> (\<exists>p q. cs = p @ sub @ q)"
    proof
      assume "\<exists>p q. c # cs = p @ sub @ q"
      then obtain p q where e: "c # cs = p @ sub @ q" by blast
      with np have "p \<noteq> []" by auto
      then obtain p' where "p = c # p'" using e by (cases p) auto
      with e show "\<exists>p q. cs = p @ sub @ q" by auto
    next
      assume "\<exists>p q. cs = p @ sub @ q"
      then obtain p q where "cs = p @ sub @ q" by blast
      then have "c # cs = (c # p) @ sub @ q" by simp
      then show "\<exists>p q. c # cs = p @ sub @ q" by blast
    qed
    with False Cons ge show ?thesis by (auto simp: Let_def simp del: HasPrefix.simps)
  qed
qed

lemma Index_first:
  "Index s sub \<noteq> - 1 \<Longrightarrow>
   0 \<le> Index s sub \<and> (\<exists>q. s = take (nat (Index s sub)) s @ sub @ q)
   \<and> (\<forall>p' q'. s = p' @ sub @ q' \<longrightarrow> nat (Index s sub) \<le> length p')"
proof (induction s)
  case Nil
  then show ?case by (auto split: if_splits)
next
  case (Cons c cs)
  show ?case
  proof (cases "HasPrefix (c # cs) sub")
    case True
    then have z: "Index (c # cs) sub = 0" by (simp del: HasPrefix.simps)
    from True obtain q where "c # cs = sub @ q" by (auto simp: HasPrefix_iff)
    then have "\<exists>q. c # cs = take (nat (Index (c # cs) sub)) (c # cs) @ sub @ q"
      unfolding z by simp
    moreover have "0 \<le> Index (c # cs) sub"
      "\<forall>p' q'. c # cs = p' @ sub @ q' \<longrightarrow> nat (Index (c # cs) sub) \<le> length p'"
      unfolding z by simp_all
    ultimately show ?thesis by blast
  next
    case False
    then have np: "\<And>q. c # cs \<noteq> sub @ q" by (simp add: HasPrefix_iff)
    from False Cons.prems have i: "Index cs sub \<noteq> - 1"
      and eq: "Index (c # cs) sub = Index cs sub + 1"
      by (auto simp: Let_def simp del: HasPrefix.simps split: if_splits)
    from Cons.IH [OF i] obtain q where
      ge: "0 \<le> Index cs sub" and at: "cs = take (nat (Index cs sub)) cs @ sub @ q"
      and least: "\<forall>p' q'. cs = p' @ sub @ q' \<longrightarrow> nat (Index cs sub) \<le> length p'"
      by blast
    have n: "nat (Index cs sub + 1) = Suc (nat (Index cs sub))" using ge by simp
    have "c # cs = take (nat (Index (c # cs) sub)) (c # cs) @ sub @ q"
      unfolding eq n using at by simp
    moreover have "\<forall>p' q'. c # cs = p' @ sub @ q' \<longrightarrow> nat (Index (c # cs) sub) \<le> length p'"
    proof (intro allI impI)
      fix p' q' assume e: "c # cs = p' @ sub @ q'"
      with np have "p' \<noteq> []" by auto
      then obtain p'' where p: "p' = c # p''" using e by (cases p') auto
      with e have "cs = p'' @ sub @ q'" by simp
      with least have "nat (Index cs sub) \<le> length p''" by blast
      with p show "nat (Index (c # cs) sub) \<le> length p'" unfolding eq n by simp
    qed
    moreover have "0 \<le> Index (c # cs) sub" unfolding eq using ge by simp
    ultimately show ?thesis by blast
  qed
qed

lemma Index_eqI:
  assumes "s = p @ sub @ q"
    and "\<forall>p' q'. s = p' @ sub @ q' \<longrightarrow> length p \<le> length p'"
  shows "Index s sub = int (length p)"
proof -
  from assms(1) have "Index s sub \<noteq> - 1" by (auto simp: Index_none)
  from Index_first [OF this] obtain q0 where
    ge: "0 \<le> Index s sub" and at: "s = take (nat (Index s sub)) s @ sub @ q0"
    and least: "\<forall>p' q'. s = p' @ sub @ q' \<longrightarrow> nat (Index s sub) \<le> length p'"
    by blast
  from least assms(1) have 1: "nat (Index s sub) \<le> length p" by blast
  from assms(2) at have "length p \<le> length (take (nat (Index s sub)) s)" by blast
  then have 2: "length p \<le> nat (Index s sub)" by simp
  from 1 2 ge show ?thesis by simp
qed

lemma parse_no_open:
  "\<not> (\<exists>rest. content = ''---\<newline>'' @ rest) \<Longrightarrow>
   ParseNoteContent Unmarshal filename content =
     Inr \<lparr>Filename = filename, Frontmatter = Frontmatter_zero, Content = content\<rparr>"
  by (simp add: ParseNoteContent_def HasPrefix_iff del: HasPrefix.simps)

lemma parse_first_marker:
  assumes c: "content = ''---\<newline>'' @ rest"
    and a: "rest = fmContent @ ''\<newline>---\<newline>'' @ body"
      "\<forall>p q. rest = p @ ''\<newline>---\<newline>'' @ q \<longrightarrow> length fmContent \<le> length p"
  shows "ParseNoteContent Unmarshal filename content =
     (case Unmarshal fmContent of
        Inl err \<Rightarrow> Inl (InvalidFrontmatter err)
      | Inr fm \<Rightarrow> Inr \<lparr>Filename = filename, Frontmatter = fm, Content = body\<rparr>)"
proof -
  let ?m = "''\<newline>---\<newline>''"
  have pre: "HasPrefix content ''---\<newline>''" using c by (simp add: HasPrefix_iff del: HasPrefix.simps)
  have d: "drop 4 content = rest" using c by simp
  have i: "Index rest ?m = int (length fmContent)"
    using Index_eqI [OF a(1) a(2)] .
  have t: "take (length fmContent) rest = fmContent" using a(1) by simp
  have n: "nat (int (length fmContent)) = length fmContent"
    and n5: "nat (int (length fmContent) + 5) = length fmContent + 5" by simp_all
  have dr: "drop (length fmContent + 5) rest = body" using a(1) by simp
  have lt: "int (length fmContent) + 5 < int (length rest) \<longleftrightarrow> body \<noteq> []"
    using a(1) by auto
  show ?thesis
  proof (cases "body = []")
    case True
    with lt have "\<not> int (length fmContent) + 5 < int (length rest)" by simp
    then show ?thesis
      unfolding ParseNoteContent_def d Let_def i using pre True
      by (simp add: n t del: HasPrefix.simps split: sum.splits)
  next
    case False
    with lt have "int (length fmContent) + 5 < int (length rest)" by simp
    then show ?thesis
      unfolding ParseNoteContent_def d Let_def i using pre
      by (simp add: n n5 t dr del: HasPrefix.simps split: sum.splits)
  qed
qed

lemma marker_overlap:
  assumes "''\<newline>---\<newline>'' @ q = t @ ''\<newline>---\<newline>'' @ body" and "t \<noteq> []"
  shows "(\<exists>t'. t = ''\<newline>---\<newline>'' @ t') \<or> t = ''\<newline>---''"
proof -
  from assms(2) obtain a t1 where t: "t = a # t1" by (cases t) auto
  show ?thesis
  proof (cases t1)
    case Nil
    with t assms(1) show ?thesis by simp
  next
    case c1: (Cons b t2)
    show ?thesis
    proof (cases t2)
      case Nil
      with t c1 assms(1) show ?thesis by simp
    next
      case c2: (Cons c t3)
      show ?thesis
      proof (cases t3)
        case Nil
        with t c1 c2 assms(1) show ?thesis by simp
      next
        case c3: (Cons d t4)
        show ?thesis
        proof (cases t4)
          case Nil
          with t c1 c2 c3 assms(1) show ?thesis by auto
        next
          case c4: (Cons e t5)
          with t c1 c2 c3 assms(1) show ?thesis by auto
        qed
      qed
    qed
  qed
qed

lemma header_newline: "\<exists>h0. header quote fm = h0 @ ''\<newline>''"
proof (cases "length (Frontmatter.Related fm) = 0")
  case True
  then have "header quote fm =
     (''created: '' @ Format_noteTime (Created fm) @ ''\<newline>''
     @ (if length (Frontmatter.Tags fm) = 0 then ''tags: []\<newline>''
        else ''tags: ['' @ write_items 0 (Frontmatter.Tags fm) @ '']\<newline>'')
     @ (if Frontmatter.Summary fm = [] then ''summary: '' @ [CHR 0x22, CHR 0x22] @ ''\<newline>''
        else ''summary: '' @ quote (Frontmatter.Summary fm) @ ''\<newline>'')
     @ ''related: []'') @ ''\<newline>''"
    by (simp add: header_def)
  then show ?thesis by blast
next
  case False
  then have "header quote fm =
     (''created: '' @ Format_noteTime (Created fm) @ ''\<newline>''
     @ (if length (Frontmatter.Tags fm) = 0 then ''tags: []\<newline>''
        else ''tags: ['' @ write_items 0 (Frontmatter.Tags fm) @ '']\<newline>'')
     @ (if Frontmatter.Summary fm = [] then ''summary: '' @ [CHR 0x22, CHR 0x22] @ ''\<newline>''
        else ''summary: '' @ quote (Frontmatter.Summary fm) @ ''\<newline>'')
     @ ''related: ['' @ write_items 0 (Frontmatter.Related fm) @ '']'') @ ''\<newline>''"
    by (simp add: header_def)
  then show ?thesis by blast
qed

lemma ToMarkdown_parse:
  assumes no: "\<not> (\<exists>p q. header quote (Frontmatter n) = p @ ''\<newline>---\<newline>'' @ q)"
  shows "ParseNoteContent Unmarshal filename (ToMarkdown quote n) =
     (case Unmarshal (butlast (header quote (Frontmatter n))) of
        Inl err \<Rightarrow> Inl (InvalidFrontmatter err)
      | Inr fm \<Rightarrow> Inr \<lparr>Filename = filename, Frontmatter = fm, Content = Content n\<rparr>)"
proof -
  let ?m = "''\<newline>---\<newline>''"
  let ?H = "header quote (Frontmatter n)"
  obtain h0 where H: "?H = h0 @ ''\<newline>''" using header_newline by blast
  then have bl: "butlast ?H = h0" by simp
  have rest: "?H @ ''---\<newline>'' @ Content n = h0 @ ?m @ Content n" using H by simp
  have least: "\<forall>p q. h0 @ ?m @ Content n = p @ ?m @ q \<longrightarrow> length h0 \<le> length p"
  proof (intro allI impI, rule ccontr)
    fix p q assume e: "h0 @ ?m @ Content n = p @ ?m @ q" and "\<not> length h0 \<le> length p"
    then have lt: "length p < length h0" by simp
    from e have "take (length p) (h0 @ ?m @ Content n) = p" by simp
    with lt have p: "p = take (length p) h0" by simp
    define t where "t = drop (length p) h0"
    have h0: "h0 = p @ t" unfolding t_def using p by (metis append_take_drop_id)
    from lt have tne: "t \<noteq> []" unfolding t_def by simp
    from e h0 have "p @ (t @ ?m @ Content n) = p @ (?m @ q)" by simp
    then have "?m @ q = t @ ?m @ Content n" by simp
    from marker_overlap [OF this tne]
    have "\<exists>p' q'. ?H = p' @ ?m @ q'"
    proof
      assume "\<exists>t'. t = ?m @ t'"
      then obtain t' where "t = ?m @ t'" by blast
      with H h0 have "?H = p @ ?m @ (t' @ ''\<newline>'')" by simp
      then show ?thesis by blast
    next
      assume "t = ''\<newline>---''"
      with H h0 have "?H = p @ ?m @ []" by simp
      then show ?thesis by blast
    qed
    with no show False by blast
  qed
  have c: "ToMarkdown quote n = ''---\<newline>'' @ (h0 @ ?m @ Content n)"
    using H by (simp add: ToMarkdown_def)
  show ?thesis unfolding bl by (rule parse_first_marker [OF c refl least])
qed

subsection \<open>An empty header block\<close>

text \<open>
  Claim C5 against the code. In the text \<^verbatim>\<open>---\<close>, \<^verbatim>\<open>---\<close>, \<^verbatim>\<open>foo: [\<close>, \<^verbatim>\<open>---\<close>, \<^verbatim>\<open>body\<close>
  (five lines) the opening marker line is followed at once by a line that holds only the
  marker: the header block is empty and the body is the three lines after it. The code
  looks for the closing marker behind a line break of what follows the opening line, so
  it misses a marker that stands directly below the opening one, takes the next marker
  line instead and hands the two lines \<^verbatim>\<open>---\<close>, \<^verbatim>\<open>foo: [\<close> to the decoder. The result is
  the decoder's error when the decoder rejects these lines, and otherwise a note whose
  body is \<^verbatim>\<open>body\<close> alone.
\<close>

theorem ParseNoteContent_misses_empty_header:
  "spec_header ''---\<newline>---\<newline>foo: [\<newline>---\<newline>body'' = Some ([], [''foo: ['', ''---'', ''body''])
   \<and> ParseNoteContent Unmarshal filename ''---\<newline>---\<newline>foo: [\<newline>---\<newline>body'' =
       (case Unmarshal ''---\<newline>foo: ['' of
          Inl err \<Rightarrow> Inl (InvalidFrontmatter err)
        | Inr fm \<Rightarrow> Inr \<lparr>Filename = filename, Frontmatter = fm, Content = ''body''\<rparr>)"
  by (simp add: spec_header_def split_lines_def ParseNoteContent_def HasSuffix_def Let_def
      split: sum.splits)

subsection \<open>Reading a written time\<close>

lemma decimal_lt10: "n < 10 \<Longrightarrow> decimal n = [digit n]"
  by (subst decimal.simps) simp

lemma decimal_ge10: "10 \<le> n \<Longrightarrow> decimal n = decimal (n div 10) @ [digit (n mod 10)]"
  by (subst decimal.simps) simp

lemma digit_zero: "digit 0 = CHR ''0''"
  unfolding digit_def by code_simp

lemma decimal2: "n < 100 \<Longrightarrow> 10 \<le> n \<Longrightarrow> decimal n = [digit (n div 10), digit (n mod 10)]"
  by (simp add: decimal_ge10 decimal_lt10)

lemma appendInt2: "n < 100 \<Longrightarrow> appendInt (int n) 2 = [digit (n div 10), digit (n mod 10)]"
  by (cases "n < 10") (simp_all add: appendInt_def decimal_lt10 decimal2 digit_zero del: decimal.simps)

lemma isDigit_digit: "k < 10 \<Longrightarrow> isDigit (digit k)"
  by (simp add: isDigit_def digit_def)

lemma digitVal_digit: "k < 10 \<Longrightarrow> digitVal (digit k) = k"
  by (simp add: digitVal_def digit_def)

lemma digit_not_space: "k < 10 \<Longrightarrow> digit k \<noteq> CHR '' ''"
  using isDigit_digit [of k] by (auto simp: isDigit_def)

lemma replicate3: "replicate 3 x = [x, x, x]" by (simp add: numeral_3_eq_3)
lemma replicate2: "replicate 2 x = [x, x]" by (simp add: numeral_2_eq_2)

lemma appendInt4:
  assumes "n < 10000"
  shows "appendInt (int n) 4 =
     [digit (n div 1000), digit (n div 100 mod 10), digit (n div 10 mod 10), digit (n mod 10)]"
proof -
  have a: "n div 10 div 10 = n div 100" by (simp add: div_mult2_eq [symmetric])
  have b: "n div 10 div 10 div 10 = n div 1000" by (simp add: div_mult2_eq [symmetric])
  consider "n < 10" | "10 \<le> n" "n < 100" | "100 \<le> n" "n < 1000" | "1000 \<le> n" by linarith
  then show ?thesis
  proof cases
    case 1
    then show ?thesis
      by (simp add: appendInt_def decimal_lt10 digit_zero replicate3 del: decimal.simps)
  next
    case 2
    then show ?thesis
      by (simp add: appendInt_def decimal2 digit_zero replicate2 del: decimal.simps)
  next
    case 3
    then have "decimal (n div 10) = [digit (n div 10 div 10), digit (n div 10 mod 10)]"
      by (intro decimal2) simp_all
    with 3 have d: "decimal n = [digit (n div 100), digit (n div 10 mod 10), digit (n mod 10)]"
      by (simp add: decimal_ge10 a del: decimal.simps)
    from 3 have "n div 100 mod 10 = n div 100" by simp
    with 3 d show ?thesis
      by (simp add: appendInt_def digit_zero del: decimal.simps)
  next
    case 4
    have c: "n div 100 div 10 = n div 1000" by (simp add: div_mult2_eq [symmetric])
    from 4 assms have "decimal (n div 100) = [digit (n div 100 div 10), digit (n div 100 mod 10)]"
      by (intro decimal2) simp_all
    with 4 have d: "decimal n =
        [digit (n div 1000), digit (n div 100 mod 10), digit (n div 10 mod 10), digit (n mod 10)]"
      by (simp add: decimal_ge10 [of n] decimal_ge10 [of "n div 10"] a c del: decimal.simps)
    with 4 show ?thesis
      by (simp add: appendInt_def del: decimal.simps)
  qed
qed

lemma digits4: "1000 * (n div 1000) + 100 * (n div 100 mod 10) + 10 * (n div 10 mod 10) + n mod 10 = (n::nat)"
proof -
  have a: "n div 100 = n div 10 div 10" by (simp add: div_mult2_eq [symmetric])
  have b: "n div 1000 = n div 10 div 10 div 10" by (simp add: div_mult2_eq [symmetric])
  define q1 where "q1 = n div 10"
  define q2 where "q2 = q1 div 10"
  define q3 where "q3 = q2 div 10"
  have 1: "n = 10 * q1 + n mod 10" unfolding q1_def by simp
  have 2: "q1 = 10 * q2 + q1 mod 10" unfolding q2_def by simp
  have 3: "q2 = 10 * q3 + q2 mod 10" unfolding q3_def by simp
  have "1000 * q3 + 100 * (q2 mod 10) + 10 * (q1 mod 10) + n mod 10 = n"
    using 1 2 3 by linarith
  then show ?thesis unfolding a b q1_def q2_def q3_def .
qed

lemma getnum2:
  "a < 10 \<Longrightarrow> b < 10 \<Longrightarrow> getnum (digit a # digit b # r) fixed = Some (a * 10 + b, r)"
  by (simp add: getnum_def isDigit_digit digitVal_digit)

lemma longYear4:
  "a < 10 \<Longrightarrow> b < 10 \<Longrightarrow> c < 10 \<Longrightarrow> d < 10 \<Longrightarrow>
   longYear (digit a # digit b # digit c # digit d # r)
     = Some (1000 * a + 100 * b + 10 * c + d, r)"
  by (simp add: longYear_def isDigit_digit digitVal_digit)

lemma Format_noteTime_safe:
  assumes "safe_time t"
  shows "Format_noteTime t =
     digit (nat (Year t) div 1000) # digit (nat (Year t) div 100 mod 10)
     # digit (nat (Year t) div 10 mod 10) # digit (nat (Year t) mod 10) # CHR ''-''
     # digit (Month t div 10) # digit (Month t mod 10) # CHR ''-''
     # digit (Day t div 10) # digit (Day t mod 10) # CHR '' ''
     # digit (Hour t div 10) # digit (Hour t mod 10) # CHR '':''
     # [digit (Minute t div 10), digit (Minute t mod 10)]"
proof -
  from assms have y: "Year t = int (nat (Year t))" "nat (Year t) < 10000"
    and m: "Month t < 100" and d: "Day t < 100" and h: "Hour t < 100" and mi: "Minute t < 100"
    by (auto simp: safe_time_def daysIn_def split: if_splits)
  define yr where "yr = nat (Year t)"
  have e: "Year t = int yr" using y(1) by (simp add: yr_def)
  have f: "appendInt (Year t) 4 =
      [digit (yr div 1000), digit (yr div 100 mod 10), digit (yr div 10 mod 10), digit (yr mod 10)]"
    unfolding e using y(2) by (intro appendInt4) (simp add: yr_def)
  show ?thesis
    unfolding Format_noteTime_def f appendInt2 [OF m] appendInt2 [OF d] appendInt2 [OF h]
      appendInt2 [OF mi]
    by (simp add: yr_def)
qed

lemma Parse_Format_noteTime:
  assumes s: "safe_time t"
  shows "Parse_noteTime (Format_noteTime t) = Some t"
proof -
  let ?y = "nat (Year t)"
  from s have y: "?y < 10000" and yy: "Year t = int ?y" by (auto simp: safe_time_def)
  from s have m: "1 \<le> Month t" "Month t \<le> 12" and d: "1 \<le> Day t" "Day t \<le> daysIn (Month t) ?y"
    and h: "Hour t < 24" and mi: "Minute t < 60"
    and z: "Second t = 0" "Nanosecond t = 0" "Offset t = 0"
    by (auto simp: safe_time_def)
  from d have d100: "Day t < 100" by (auto simp: daysIn_def split: if_splits)
  have lt: "?y div 1000 < 10" "?y div 100 mod 10 < 10" "?y div 10 mod 10 < 10" "?y mod 10 < 10"
    "Month t div 10 < 10" "Month t mod 10 < 10" "Day t div 10 < 10" "Day t mod 10 < 10"
    "Hour t div 10 < 10" "Hour t mod 10 < 10" "Minute t div 10 < 10" "Minute t mod 10 < 10"
    using y m d100 h mi by simp_all
  have r: "\<And>n::nat. n div 10 * 10 + n mod 10 = n" by simp
  have t: "\<lparr>Year = int ?y, Month = Month t, Day = Day t, Hour = Hour t, Minute = Minute t,
             Second = 0, Nanosecond = 0, Offset = 0\<rparr> = t"
    using yy z by (cases t) simp
  have g: "\<not> (Day t < 1 \<or> daysIn (Month t) ?y < Day t)" "\<not> (Month t = 0 \<or> 12 < Month t)"
    "\<not> 24 \<le> Hour t" "\<not> 60 \<le> Minute t"
    using m d h mi by simp_all
  show ?thesis
    unfolding Format_noteTime_safe [OF s] Parse_noteTime_def
    by (simp only: longYear4 lt getnum2 skip_def skip_space_def digit_not_space digits4 r g t
        Option.bind.simps prod.case list.case if_True if_False refl dropWhile.simps simp_thms
        not_False_eq_True)
qed

subsection \<open>Reading written lines, items and summaries\<close>

lemma lines_from_no_newline:
  "CHR 0x0A \<notin> set a \<Longrightarrow> lines_from cur a = [rev cur @ a]"
  by (induction a arbitrary: cur) auto

lemma lines_from_newline:
  "CHR 0x0A \<notin> set a \<Longrightarrow> lines_from cur (a @ CHR 0x0A # b) = (rev cur @ a) # lines_from [] b"
  by (induction a arbitrary: cur) auto

lemma lines_from_marker:
  "''---'' \<in> set (lines_from cur (p @ ''\<newline>---\<newline>'' @ q))"
  by (induction p arbitrary: cur) auto

lemma read_items_word:
  "list_all plainChar w \<Longrightarrow> read_items cur (w @ rest) = read_items (rev w @ cur) rest"
  by (induction w arbitrary: cur) auto

lemma write_items_Suc: "write_items (Suc i) ws = concat (map (\<lambda>w. '', '' @ w) ws)"
  by (induction ws arbitrary: i) auto

lemma write_items_0: "write_items 0 (w # ws) = w @ concat (map (\<lambda>w. '', '' @ w) ws)"
  by (simp add: write_items_Suc)

lemma comma_not_plain: "\<not> plainChar CHR '',''"
  by (simp add: plainChar_def alnumChar_def)

lemma read_items_written:
  "safe_item w \<Longrightarrow> list_all safe_item ws \<Longrightarrow>
   read_items [] (w @ concat (map (\<lambda>w. '', '' @ w) ws)) = Some (w # ws)"
proof (induction ws arbitrary: w)
  case Nil
  then show ?case
    using read_items_word [of w "[]" "[]"] by (simp add: safe_item_def plain_word_def)
next
  case (Cons v vs)
  from Cons.prems have v: "safe_item v" "list_all safe_item vs" by simp_all
  from Cons.prems have w: "plain_word w" "plain_value w = w" "list_all plainChar w"
    by (simp_all add: safe_item_def plain_word_def)
  have "read_items [] (w @ concat (map (\<lambda>w. '', '' @ w) (v # vs)))
      = read_items (rev w) ('', '' @ v @ concat (map (\<lambda>w. '', '' @ w) vs))"
    using read_items_word [OF w(3), of "[]"] by simp
  also have "\<dots> = map_option ((#) w) (read_items [] (v @ concat (map (\<lambda>w. '', '' @ w) vs)))"
    using w by (simp add: comma_not_plain)
  also have "\<dots> = Some (w # v # vs)" using Cons.IH [OF v] by simp
  finally show ?case .
qed

lemma write_items_read:
  assumes "list_all safe_item ws"
  shows "read_flow (''['' @ write_items 0 ws @ '']'') = Some ws"
proof (cases ws)
  case Nil
  then show ?thesis by (simp add: read_flow_def)
next
  case (Cons w vs)
  with assms have s: "safe_item w" "list_all safe_item vs" by simp_all
  then have ne: "w \<noteq> []" by (simp add: safe_item_def plain_word_def)
  have "read_flow (''['' @ write_items 0 ws @ '']'') = read_items [] (write_items 0 ws)"
    using ne unfolding Cons write_items_0 by (simp add: read_flow_def butlast_append)
  then show ?thesis unfolding Cons write_items_0 using read_items_written [OF s] by simp
qed

lemma unescape_plain:
  "rest \<noteq> [] \<Longrightarrow> c \<noteq> CHR 0x5C \<Longrightarrow> c \<noteq> CHR 0x22 \<Longrightarrow> printable c \<Longrightarrow>
   unescape (c # rest) = map_option ((#) c) (unescape rest)"
  by (cases rest) simp_all

lemma unescape_quoted:
  "list_all printable s \<Longrightarrow>
   unescape (concat (map (\<lambda>c. if c = CHR 0x22 \<or> c = CHR 0x5C then [CHR 0x5C, c] else [c]) s)
             @ [CHR 0x22]) = Some s"
proof (induction s)
  case Nil
  then show ?case by simp
next
  case (Cons c cs)
  then show ?case by (auto simp: unescape_plain)
qed

lemma read_quoted_Quote: "list_all printable s \<Longrightarrow> read_quoted (Quote_printable s) = Some s"
  by (simp add: read_quoted_def Quote_printable_def unescape_quoted)

lemma newline_not_printable: "\<not> printable CHR 0x0A"
  by (simp add: printable_def)

lemma Quote_no_newline: "list_all printable s \<Longrightarrow> CHR 0x0A \<notin> set (Quote_printable s)"
  by (induction s) (auto simp: Quote_printable_def newline_not_printable)

lemma newline_not_plain: "\<not> plainChar CHR 0x0A"
  by (simp add: plainChar_def alnumChar_def)

lemma write_items_no_newline:
  "list_all safe_item ws \<Longrightarrow> CHR 0x0A \<notin> set (write_items i ws)"
proof (induction ws arbitrary: i)
  case Nil
  then show ?case by simp
next
  case (Cons w ws)
  then have "list_all plainChar w" by (simp add: safe_item_def plain_word_def)
  then have "CHR 0x0A \<notin> set w" using newline_not_plain by (auto simp: list_all_iff)
  with Cons show ?case by auto
qed

lemma digit_not_newline: "k < 10 \<Longrightarrow> CHR 0x0A \<noteq> digit k"
proof
  assume k: "k < 10" and e: "CHR 0x0A = digit k"
  have "\<not> isDigit CHR 0x0A" by (simp add: isDigit_def)
  with isDigit_digit [OF k] e show False by simp
qed

lemma Format_no_newline: "safe_time t \<Longrightarrow> CHR 0x0A \<notin> set (Format_noteTime t)"
proof -
  assume s: "safe_time t"
  have "\<And>n::nat. n mod 10 < 10" by simp
  moreover from s have "nat (Year t) div 1000 < 10" "Month t div 10 < 10" "Day t div 10 < 10"
    "Hour t div 10 < 10" "Minute t div 10 < 10"
    by (auto simp: safe_time_def daysIn_def split: if_splits)
  ultimately show ?thesis
    unfolding Format_noteTime_safe [OF s] by (simp add: digit_not_newline)
qed

subsection \<open>The round trip\<close>

lemma strip_key_line: "strip_key key (key @ '': '' @ v) = Some v"
  by (simp add: strip_key_def HasPrefix_iff)

lemma header_lines:
  assumes q: "quotes_printable quote" and s: "safe_header fm"
  shows "header quote fm =
     (''created: '' @ Format_noteTime (Created fm)) @ CHR 0x0A
     # (''tags: '' @ ''['' @ write_items 0 (Frontmatter.Tags fm) @ '']'') @ CHR 0x0A
     # (''summary: '' @ Quote_printable (Frontmatter.Summary fm)) @ CHR 0x0A
     # (''related: '' @ ''['' @ write_items 0 (Frontmatter.Related fm) @ '']'') @ [CHR 0x0A]"
proof -
  from s have "list_all printable (Frontmatter.Summary fm)" by (simp add: safe_header_def)
  with q have e: "quote (Frontmatter.Summary fm) = Quote_printable (Frontmatter.Summary fm)"
    by (simp add: quotes_printable_def)
  show ?thesis by (simp add: header_def e Quote_printable_def)
qed

lemma header_read:
  assumes q: "quotes_printable quote" and s: "safe_header fm"
  shows "read_header Parse_other (butlast (header quote fm)) = Some fm"
    and "\<not> (\<exists>p r. header quote fm = p @ ''\<newline>---\<newline>'' @ r)"
proof -
  define l1 where "l1 = ''created: '' @ Format_noteTime (Created fm)"
  define l2 where "l2 = ''tags: '' @ ''['' @ write_items 0 (Frontmatter.Tags fm) @ '']''"
  define l3 where "l3 = ''summary: '' @ Quote_printable (Frontmatter.Summary fm)"
  define l4 where "l4 = ''related: '' @ ''['' @ write_items 0 (Frontmatter.Related fm) @ '']''"
  from s have st: "safe_time (Created fm)" and tg: "list_all safe_item (Frontmatter.Tags fm)"
    and su: "list_all printable (Frontmatter.Summary fm)"
    and re: "list_all safe_item (Frontmatter.Related fm)"
    by (simp_all add: safe_header_def)
  have h: "header quote fm = l1 @ CHR 0x0A # l2 @ CHR 0x0A # l3 @ CHR 0x0A # l4 @ [CHR 0x0A]"
    unfolding l1_def l2_def l3_def l4_def by (rule header_lines [OF q s])
  have n1: "CHR 0x0A \<notin> set l1" unfolding l1_def using Format_no_newline [OF st] by simp
  have n2: "CHR 0x0A \<notin> set l2" unfolding l2_def using write_items_no_newline [OF tg] by simp
  have n3: "CHR 0x0A \<notin> set l3" unfolding l3_def using Quote_no_newline [OF su] by simp
  have n4: "CHR 0x0A \<notin> set l4" unfolding l4_def using write_items_no_newline [OF re] by simp
  have b: "butlast (header quote fm) = l1 @ CHR 0x0A # l2 @ CHR 0x0A # l3 @ CHR 0x0A # l4"
    unfolding h by (simp add: butlast_append)
  have sl: "split_lines (butlast (header quote fm)) = [l1, l2, l3, l4]"
    unfolding b split_lines_def
    by (simp add: lines_from_newline [OF n1] lines_from_newline [OF n2]
        lines_from_newline [OF n3] lines_from_no_newline [OF n4])
  have nil: "lines_from [] [] = [[]]" by simp
  have sh: "split_lines (header quote fm) = [l1, l2, l3, l4, []]"
    unfolding h split_lines_def
    using lines_from_newline [OF n1, of "[]"] lines_from_newline [OF n2, of "[]"]
      lines_from_newline [OF n3, of "[]"] lines_from_newline [OF n4, of "[]" "[]"]
    by simp
  have k1: "strip_key ''created'' l1 = Some (Format_noteTime (Created fm))"
    unfolding l1_def using strip_key_line [of "''created''"] by simp
  have k2: "strip_key ''tags'' l2 = Some (''['' @ write_items 0 (Frontmatter.Tags fm) @ '']'')"
    unfolding l2_def using strip_key_line [of "''tags''"] by simp
  have k3: "strip_key ''summary'' l3 = Some (Quote_printable (Frontmatter.Summary fm))"
    unfolding l3_def using strip_key_line [of "''summary''"] by simp
  have k4: "strip_key ''related'' l4 = Some (''['' @ write_items 0 (Frontmatter.Related fm) @ '']'')"
    unfolding l4_def using strip_key_line [of "''related''"] by simp
  have fne: "Format_noteTime (Created fm) \<noteq> []"
    unfolding Format_noteTime_safe [OF st] by simp
  have rt: "read_time Parse_other (Format_noteTime (Created fm)) = Some (Created fm)"
    using fne by (simp add: read_time_def NoteTime_UnmarshalYAML_def Parse_Format_noteTime [OF st])
  show "read_header Parse_other (butlast (header quote fm)) = Some fm"
    unfolding read_header_def sl
    using write_items_read [OF tg] write_items_read [OF re]
    by (simp add: k1 k2 k3 k4 fne rt read_quoted_Quote [OF su])
  show "\<not> (\<exists>p r. header quote fm = p @ ''\<newline>---\<newline>'' @ r)"
  proof
    assume "\<exists>p r. header quote fm = p @ ''\<newline>---\<newline>'' @ r"
    then obtain p r where e: "header quote fm = p @ ''\<newline>---\<newline>'' @ r" by blast
    have "''---'' \<in> set (split_lines (header quote fm))"
      unfolding e split_lines_def by (rule lines_from_marker)
    then have "''---'' \<in> {l1, l2, l3, l4, []}" unfolding sh by simp
    then show False unfolding l1_def l2_def l3_def l4_def by simp
  qed
qed

lemma notation_decoder_reads: "reads_notation (notation_decoder Parse_other) Parse_other"
  by (simp add: reads_notation_def notation_decoder_def)

lemma Quote_printable_quotes: "quotes_printable Quote_printable"
  by (simp add: quotes_printable_def)

lemma safe_markdown_note: "safe_header (Frontmatter markdown_note)"
  unfolding markdown_note_def by code_simp

lemma safe_valid_note: "safe_header (Frontmatter valid_note)"
  unfolding valid_note_def by code_simp

lemma ToMarkdown_markdown_note:
  "ToMarkdown Quote_printable markdown_note =
     ''---\<newline>created: 2025-01-11 14:23\<newline>tags: [neo, eval]\<newline>summary: ''
     @ [CHR 0x22] @ ''Test summary'' @ [CHR 0x22]
     @ ''\<newline>related: [other.md]\<newline>---\<newline>\<newline>Body content here.\<newline>''"
  by code_simp

lemma parse_valid_content:
  "ParseNoteContent (notation_decoder no_other_layout) ''test.md'' valid_content = Inr valid_note"
  by code_simp

text \<open>
  Claim C1, as the code has it. Let the decoder read the header notation and let the
  quoting be Go's on printable ASCII. A record with a safe header (a time on a full
  minute of a year from 0 to 9999 in UTC, tags and related notes that are plain words
  other than YAML's null, a summary of printable ASCII) is read back from what
  \<open>ToMarkdown\<close> writes with the same four header fields and a byte-identical body, under
  the file name that is given to the parser. Hence, when an input parses to a note with
  a safe header, writing that note and parsing again gives the same note: the rewrite
  keeps the body and the header fields.
\<close>

theorem roundtrip:
  assumes u: "reads_notation Unmarshal Parse_other" and q: "quotes_printable quote"
  shows "(safe_header (Frontmatter r) \<longrightarrow>
            ParseNoteContent Unmarshal filename (ToMarkdown quote r) =
              Inr \<lparr>Filename = filename, Frontmatter = Frontmatter r, Content = Content r\<rparr>)
       \<and> (ParseNoteContent Unmarshal filename x = Inr n \<and> safe_header (Frontmatter n) \<longrightarrow>
            ParseNoteContent Unmarshal filename (ToMarkdown quote n) = Inr n)"
proof -
  have main: "ParseNoteContent Unmarshal f (ToMarkdown quote m) =
      Inr \<lparr>Filename = f, Frontmatter = Frontmatter m, Content = Content m\<rparr>"
    if s: "safe_header (Frontmatter m)" for f and m :: Note
  proof -
    have "Unmarshal (butlast (header quote (Frontmatter m))) = Inr (Frontmatter m)"
      using u header_read(1) [OF q s, of Parse_other] by (simp add: reads_notation_def)
    then show ?thesis
      using ToMarkdown_parse [OF header_read(2) [OF q s], of Unmarshal f] by simp
  qed
  have name: "Filename n = filename" if "ParseNoteContent Unmarshal filename x = Inr n"
    using that by (auto simp: ParseNoteContent_def Let_def split: if_splits sum.splits)
  show ?thesis
  proof (intro conjI impI)
    assume "safe_header (Frontmatter r)"
    then show "ParseNoteContent Unmarshal filename (ToMarkdown quote r) =
        Inr \<lparr>Filename = filename, Frontmatter = Frontmatter r, Content = Content r\<rparr>"
      by (rule main)
  next
    assume a: "ParseNoteContent Unmarshal filename x = Inr n \<and> safe_header (Frontmatter n)"
    then have "ParseNoteContent Unmarshal filename (ToMarkdown quote n) =
        Inr \<lparr>Filename = filename, Frontmatter = Frontmatter n, Content = Content n\<rparr>"
      using main by blast
    moreover have "\<lparr>Filename = filename, Frontmatter = Frontmatter n, Content = Content n\<rparr> = n"
      using name a by (cases n) auto
    ultimately show "ParseNoteContent Unmarshal filename (ToMarkdown quote n) = Inr n" by simp
  qed
qed

text \<open>
  The note of \<^verbatim>\<open>TestToMarkdown\<close> and the first input of \<^verbatim>\<open>TestParseNoteContent\<close>, with the
  decoder that reads the notation.
\<close>

theorem roundtrip_witness:
  "reads_notation (notation_decoder no_other_layout) no_other_layout
   \<and> quotes_printable Quote_printable
   \<and> safe_header (Frontmatter markdown_note)
   \<and> ParseNoteContent (notation_decoder no_other_layout) ''test.md''
         (ToMarkdown Quote_printable markdown_note) =
       Inr \<lparr>Filename = ''test.md'', Frontmatter = Frontmatter markdown_note,
              Content = Content markdown_note\<rparr>
   \<and> ParseNoteContent (notation_decoder no_other_layout) ''test.md'' valid_content = Inr valid_note
   \<and> safe_header (Frontmatter valid_note)
   \<and> ParseNoteContent (notation_decoder no_other_layout) ''test.md''
         (ToMarkdown Quote_printable valid_note) = Inr valid_note"
proof -
  note th = roundtrip [OF notation_decoder_reads [of no_other_layout] Quote_printable_quotes]
  show ?thesis
    using th [where r = markdown_note and filename = "''test.md''" and x = valid_content
        and n = valid_note]
      notation_decoder_reads [of no_other_layout] Quote_printable_quotes safe_markdown_note
      safe_valid_note parse_valid_content
    by simp
qed

subsection \<open>Headers that are not read back\<close>

text \<open>
  Claim C1 as stated fails: the tags are written unquoted, so the one tag \<open>a, b\<close> and
  the two tags \<open>a\<close>, \<open>b\<close> are written alike, and no decoder reads both back.
\<close>

lemma ToMarkdown_not_injective:
  "ToMarkdown quote (quoted_note [''a, b'']) = ToMarkdown quote (quoted_note [''a'', ''b''])"
  by (simp add: ToMarkdown_def header_def quoted_note_def)

theorem roundtrip_counterexample:
  "\<not> (\<exists>Unmarshal quote.
        (\<exists>r. ParseNoteContent Unmarshal ''n.md'' (ToMarkdown quote (quoted_note [''a, b''])) = Inr r
           \<and> Content r = Content (quoted_note [''a, b''])
           \<and> Frontmatter r = Frontmatter (quoted_note [''a, b'']))
      \<and> (\<exists>r. ParseNoteContent Unmarshal ''n.md'' (ToMarkdown quote (quoted_note [''a'', ''b''])) = Inr r
           \<and> Content r = Content (quoted_note [''a'', ''b''])
           \<and> Frontmatter r = Frontmatter (quoted_note [''a'', ''b''])))"
proof
  assume "\<exists>Unmarshal quote.
        (\<exists>r. ParseNoteContent Unmarshal ''n.md'' (ToMarkdown quote (quoted_note [''a, b''])) = Inr r
           \<and> Content r = Content (quoted_note [''a, b''])
           \<and> Frontmatter r = Frontmatter (quoted_note [''a, b'']))
      \<and> (\<exists>r. ParseNoteContent Unmarshal ''n.md'' (ToMarkdown quote (quoted_note [''a'', ''b''])) = Inr r
           \<and> Content r = Content (quoted_note [''a'', ''b''])
           \<and> Frontmatter r = Frontmatter (quoted_note [''a'', ''b'']))"
  then obtain Unmarshal quote r1 r2 where
    1: "ParseNoteContent Unmarshal ''n.md'' (ToMarkdown quote (quoted_note [''a, b''])) = Inr r1"
       "Frontmatter r1 = Frontmatter (quoted_note [''a, b''])"
    and 2: "ParseNoteContent Unmarshal ''n.md'' (ToMarkdown quote (quoted_note [''a'', ''b''])) = Inr r2"
       "Frontmatter r2 = Frontmatter (quoted_note [''a'', ''b''])"
    by blast
  from 1(1) 2(1) have "r1 = r2" unfolding ToMarkdown_not_injective by simp
  with 1(2) 2(2) have "Frontmatter (quoted_note [''a, b'']) = Frontmatter (quoted_note [''a'', ''b''])"
    by simp
  then show False by (simp add: quoted_note_def)
qed

section \<open>Properties of the content fingerprint\<close>

lemma length_block: "length (block hs ws) = length hs"
proof (cases "(hs, ws)" rule: block.cases)
  case (1 h0 h1 h2 h3 h4 h5 h6 h7 ws')
  obtain a b c d e f g h where
    r: "foldl round256 (h0, h1, h2, h3, h4, h5, h6, h7) (zip K256 (rev (schedule 48 (rev ws'))))
        = (a, b, c, d, e, f, g, h)"
    by (metis surj_pair)
  from 1 show ?thesis by (simp add: r)
qed simp_all

lemma length_blocks: "length (blocks hs ws) = length hs"
proof (induction hs ws rule: blocks.induct)
  case (1 hs ws)
  show ?case
  proof (cases "length ws < 16")
    case True
    then show ?thesis by (subst blocks.simps) simp
  next
    case False
    then have "blocks hs ws = blocks (block hs (take 16 ws)) (drop 16 ws)"
      by (subst blocks.simps) simp
    with 1 [OF False] show ?thesis by (simp add: length_block del: blocks.simps)
  qed
qed

lemma length_bytes32s: "length (concat (map bytes32 xs)) = 4 * length xs"
  by (induction xs) (simp_all add: bytes32_def)

lemma length_Sum256: "length (Sum256 m) = 32"
  by (simp add: Sum256_def length_bytes32s length_blocks H256_def del: blocks.simps)

lemma length_EncodeToString: "length (EncodeToString src) = 2 * length src"
  unfolding EncodeToString_def by (induction src) simp_all

lemma hi_nibble: "unat (drop_bit 4 (v::byte)) < 16"
proof -
  have "unat v < 256" using unsigned_less [of v] by simp
  then have "unat v div 16 < 16" by simp
  then show ?thesis by (simp add: drop_bit_eq_div unat_div)
qed

lemma lo_nibble: "unat ((v::byte) AND 0x0f) < 16"
proof -
  have "v AND 0x0f \<le> 0x0f" by (rule word_and_le1)
  then have "unat (v AND 0x0f) \<le> unat (0x0f::byte)" by (simp add: word_le_nat_alt)
  then show ?thesis by simp
qed

lemma set_EncodeToString: "set (EncodeToString src) \<subseteq> set hextable"
proof -
  have l: "length hextable = 16" by (simp add: hextable_def)
  have "hextable ! unat (drop_bit 4 v) \<in> set hextable"
    "hextable ! unat (v AND 0x0f) \<in> set hextable" for v :: byte
    using hi_nibble [of v] lo_nibble [of v] l by (simp_all del: unsigned_and_eq)
  then show ?thesis unfolding EncodeToString_def by auto
qed

lemma length_ContentHash: "length (Note_ContentHash n) = 12"
  by (simp add: Note_ContentHash_def length_EncodeToString length_Sum256)

lemma set_ContentHash: "set (Note_ContentHash n) \<subseteq> set ''0123456789abcdef''"
proof -
  have "set (Note_ContentHash n) \<subseteq> set (EncodeToString (Sum256 (bytes (Content n))))"
    unfolding Note_ContentHash_def by (rule set_take_subset)
  with set_EncodeToString show ?thesis unfolding hextable_def by blast
qed

text \<open>
  The model of SHA-256 on the known answer for \<^verbatim>\<open>abc\<close> of FIPS 180-4, and the
  fingerprints of the two bodies of \<^verbatim>\<open>TestContentHash\<close>.
\<close>

lemma Sum256_abc:
  "EncodeToString (Sum256 (bytes ''abc'')) =
     ''ba7816bf8f01cfea414140de5dae2223b00361a396177a9cb410ff61f20015ad''"
  by code_simp

lemma hash_some_content:
  "take 12 (EncodeToString (Sum256 (bytes ''Some content here''))) = ''00e43534d0a8''"
  by code_simp

lemma hash_different_content:
  "take 12 (EncodeToString (Sum256 (bytes ''Different content''))) = ''eb976165ceb7''"
  by code_simp

text \<open>
  Claim C3. The fingerprint is a function of the body alone: notes with equal bodies
  have equal fingerprints, and changing the file name or the header does not change
  it. Every fingerprint has 12 characters, all of them lower-case hexadecimal digits.
  The two bodies of the repository's test have different fingerprints.
\<close>

theorem ContentHash_body_only:
  "(Content n1 = Content n2 \<longrightarrow> Note_ContentHash n1 = Note_ContentHash n2)
   \<and> Note_ContentHash (n\<lparr>Filename := f, Frontmatter := fm\<rparr>) = Note_ContentHash n
   \<and> length (Note_ContentHash n) = 12
   \<and> set (Note_ContentHash n) \<subseteq> set ''0123456789abcdef''
   \<and> Note_ContentHash \<lparr>Filename = f1, Frontmatter = fm1, Content = ''Some content here''\<rparr>
       = ''00e43534d0a8''
   \<and> Note_ContentHash \<lparr>Filename = f2, Frontmatter = fm2, Content = ''Different content''\<rparr>
       = ''eb976165ceb7''
   \<and> Note_ContentHash \<lparr>Filename = f1, Frontmatter = fm1, Content = ''Some content here''\<rparr>
       \<noteq> Note_ContentHash \<lparr>Filename = f2, Frontmatter = fm2, Content = ''Different content''\<rparr>"
proof -
  have a: "Note_ContentHash \<lparr>Filename = f1, Frontmatter = fm1, Content = ''Some content here''\<rparr>
       = ''00e43534d0a8''"
    unfolding Note_ContentHash_def using hash_some_content by simp
  have b: "Note_ContentHash \<lparr>Filename = f2, Frontmatter = fm2, Content = ''Different content''\<rparr>
       = ''eb976165ceb7''"
    unfolding Note_ContentHash_def using hash_different_content by simp
  have c: "Content n1 = Content n2 \<longrightarrow> Note_ContentHash n1 = Note_ContentHash n2"
    by (simp add: Note_ContentHash_def)
  have d: "Note_ContentHash (n\<lparr>Filename := f, Frontmatter := fm\<rparr>) = Note_ContentHash n"
    by (simp add: Note_ContentHash_def)
  have e: "''00e43534d0a8'' \<noteq> ''eb976165ceb7''" by simp
  show ?thesis
    unfolding a b using c d e length_ContentHash [of n] set_ContentHash [of n]
    by (intro conjI) simp_all
qed

theorem ContentHash_body_only_witness:
  "Content (same_content_note [''tag1''] ''Summary 1'')
     = Content (same_content_note [''different'', ''tags''] ''Different summary'')
   \<and> Note_ContentHash (same_content_note [''tag1''] ''Summary 1'')
     = Note_ContentHash (same_content_note [''different'', ''tags''] ''Different summary'')"
proof -
  have h: "Content (same_content_note [''tag1''] ''Summary 1'')
     = Content (same_content_note [''different'', ''tags''] ''Different summary'')"
    by (simp add: same_content_note_def)
  from ContentHash_body_only
    [where ?n1.0 = "same_content_note [''tag1''] ''Summary 1''"
       and ?n2.0 = "same_content_note [''different'', ''tags''] ''Different summary''",
     THEN conjunct1, rule_format, OF h] h
  show ?thesis by (intro conjI)
qed

end
